theory Spec2Isabelle
  imports Complex_Main "HOL-Library.Log_Nat"
begin

section \<open>The value type: C \<open>double\<close>\<close>

text \<open>
  \<open>unicon.c\<close> computes in C \<open>double\<close>, that is IEEE-754 binary64 with the default rounding
  (to nearest, ties to even). A double is modelled by its value: a rational number for a
  finite double, or one of the three special values. Every arithmetic operation computes
  the exact rational result and rounds it to the nearest double (\<open>round_double\<close>): 53
  significant bits, the exponent of the last bit no smaller than \<open>-1074\<close> (subnormal
  numbers), and infinity once the rounded magnitude reaches \<open>2^1024\<close>.

  The sign of a zero is not modelled: \<open>Finite 0\<close> stands for \<open>+0.0\<close>. The only divisors of
  the program are the literals \<open>5\<close> and \<open>9\<close>, the factors of the unit table and a power
  of ten, so the sign of a zero never decides a result.
\<close>

datatype double = Finite rat | PInf | NInf | NaN

text \<open>\<open>ilog2 x\<close> is the integer \<open>k\<close> with \<open>2^k \<le> x < 2^(k+1)\<close>, for positive \<open>x\<close>.\<close>

definition ilog2 :: "rat \<Rightarrow> int" where
  "ilog2 x =
     (let k = bitlen (fst (quotient_of x)) - bitlen (snd (quotient_of x))
      in if 2 powi k \<le> x then k else k - 1)"

text \<open>Rounding to the nearest integer, a tie going to the even neighbour.\<close>

definition round_even :: "rat \<Rightarrow> int" where
  "round_even y =
     (let f = \<lfloor>y\<rfloor>; d = y - of_int f
      in if d < 1 / 2 then f
         else if 1 / 2 < d then f + 1
         else if even f then f else f + 1)"

definition round_double :: "rat \<Rightarrow> double" where
  "round_double x =
     (if x = 0 then Finite 0
      else
        let e = max (ilog2 \<bar>x\<bar> - 52) (- 1074);
            r = of_int (round_even (x / 2 powi e)) * 2 powi e
        in if 2 powi 1024 \<le> \<bar>r\<bar> then (if 0 < x then PInf else NInf) else Finite r)"

text \<open>
  A constant of the source text: a decimal floating constant such as \<open>273.15\<close>, or an
  integer constant converted to \<open>double\<close> by the usual arithmetic conversions (the \<open>9\<close>
  of \<open>value * 9\<close>). Its argument is the exact value written in the source.
\<close>

definition lit :: "rat \<Rightarrow> double" where
  "lit q = round_double q"

fun fneg :: "double \<Rightarrow> double" where
  "fneg (Finite a) = Finite (- a)"
| "fneg PInf = NInf"
| "fneg NInf = PInf"
| "fneg NaN = NaN"

fun fadd :: "double \<Rightarrow> double \<Rightarrow> double" where
  "fadd (Finite a) (Finite b) = round_double (a + b)"
| "fadd NaN y = NaN"
| "fadd x NaN = NaN"
| "fadd PInf NInf = NaN"
| "fadd NInf PInf = NaN"
| "fadd PInf y = PInf"
| "fadd NInf y = NInf"
| "fadd x PInf = PInf"
| "fadd x NInf = NInf"

definition fsub :: "double \<Rightarrow> double \<Rightarrow> double" where
  "fsub x y = fadd x (fneg y)"

text \<open>The sign of an infinite result: positive when both operands have the same sign.\<close>

definition signed_inf :: "bool \<Rightarrow> double" where
  "signed_inf same = (if same then PInf else NInf)"

fun fmul :: "double \<Rightarrow> double \<Rightarrow> double" where
  "fmul (Finite a) (Finite b) = round_double (a * b)"
| "fmul NaN y = NaN"
| "fmul x NaN = NaN"
| "fmul (Finite a) PInf = (if a = 0 then NaN else signed_inf (0 < a))"
| "fmul (Finite a) NInf = (if a = 0 then NaN else signed_inf (a < 0))"
| "fmul PInf (Finite b) = (if b = 0 then NaN else signed_inf (0 < b))"
| "fmul NInf (Finite b) = (if b = 0 then NaN else signed_inf (b < 0))"
| "fmul PInf PInf = PInf"
| "fmul NInf NInf = PInf"
| "fmul PInf NInf = NInf"
| "fmul NInf PInf = NInf"

fun fdiv :: "double \<Rightarrow> double \<Rightarrow> double" where
  "fdiv (Finite a) (Finite b) =
     (if b = 0 then (if a = 0 then NaN else signed_inf (0 < a))
      else round_double (a / b))"
| "fdiv NaN y = NaN"
| "fdiv x NaN = NaN"
| "fdiv (Finite a) PInf = Finite 0"
| "fdiv (Finite a) NInf = Finite 0"
| "fdiv PInf (Finite b) = signed_inf (0 \<le> b)"
| "fdiv NInf (Finite b) = signed_inf (b < 0)"
| "fdiv PInf PInf = NaN"
| "fdiv PInf NInf = NaN"
| "fdiv NInf PInf = NaN"
| "fdiv NInf NInf = NaN"

section \<open>The data model of \<open>unicon.c\<close>\<close>

text \<open>The two enumerations, in the order of the source (lines 33-53).\<close>

datatype UnitType = TEMPERATURE | LENGTH | TIME | MASS | DIGITAL

datatype Unit =
    CELSIUS | FAHRENHEIT | KELVIN
  | METERS | CENTIMETERS | DECIMETERS | DECAMETERS | HECTOMETERS | KILOMETERS
  | MILLIMETERS | MILE | INCHES | FEET
  | SECONDS | MILLISECONDS | MINUTES | HOURS | DAYS | MONTHS | YEARS
  | GRAMS | CENTIGRAMS | DECIGRAMS | DECAGRAMS | HECTOGRAMS | MILLIGRAMS | KILOGRAMS
  | POUNDS | OUNCES
  | BYTES | KILOBYTES | MEGABYTES | GIGABYTES | TERABYTES | PETABYTES | EXABYTES

text \<open>
  A C enumerator is an integer: the first is \<open>0\<close> and each next one is one more.
  \<open>unit_index\<close> is that integer; the source uses it wherever it indexes \<open>unit_table\<close> by a
  \<open>Unit\<close> or compares two units with \<open><\<close>.
\<close>

fun unit_index :: "Unit \<Rightarrow> nat" where
  "unit_index CELSIUS = 0"
| "unit_index FAHRENHEIT = 1"
| "unit_index KELVIN = 2"
| "unit_index METERS = 3"
| "unit_index CENTIMETERS = 4"
| "unit_index DECIMETERS = 5"
| "unit_index DECAMETERS = 6"
| "unit_index HECTOMETERS = 7"
| "unit_index KILOMETERS = 8"
| "unit_index MILLIMETERS = 9"
| "unit_index MILE = 10"
| "unit_index INCHES = 11"
| "unit_index FEET = 12"
| "unit_index SECONDS = 13"
| "unit_index MILLISECONDS = 14"
| "unit_index MINUTES = 15"
| "unit_index HOURS = 16"
| "unit_index DAYS = 17"
| "unit_index MONTHS = 18"
| "unit_index YEARS = 19"
| "unit_index GRAMS = 20"
| "unit_index CENTIGRAMS = 21"
| "unit_index DECIGRAMS = 22"
| "unit_index DECAGRAMS = 23"
| "unit_index HECTOGRAMS = 24"
| "unit_index MILLIGRAMS = 25"
| "unit_index KILOGRAMS = 26"
| "unit_index POUNDS = 27"
| "unit_index OUNCES = 28"
| "unit_index BYTES = 29"
| "unit_index KILOBYTES = 30"
| "unit_index MEGABYTES = 31"
| "unit_index GIGABYTES = 32"
| "unit_index TERABYTES = 33"
| "unit_index PETABYTES = 34"
| "unit_index EXABYTES = 35"

text \<open>The struct of one table row (lines 56-61).\<close>

record UnitTable =
  type :: UnitType
  unit :: Unit
  name :: string
  conversion_factor :: double

definition row :: "UnitType \<Rightarrow> Unit \<Rightarrow> string \<Rightarrow> double \<Rightarrow> UnitTable" where
  "row t u n c = \<lparr>type = t, unit = u, name = n, conversion_factor = c\<rparr>"

text \<open>The table (lines 64-106), each factor as the source writes it.\<close>

definition unit_table :: "UnitTable list" where
  "unit_table =
    [row TEMPERATURE CELSIUS ''celsius'' (lit 0),
     row TEMPERATURE FAHRENHEIT ''fahrenheit'' (lit 0),
     row TEMPERATURE KELVIN ''kelvin'' (lit 0),
     row LENGTH METERS ''meters'' (lit 1),
     row LENGTH CENTIMETERS ''centimeters'' (lit 100),
     row LENGTH DECIMETERS ''decimeters'' (lit 10),
     row LENGTH DECAMETERS ''decameters'' (lit (1 / 10)),
     row LENGTH HECTOMETERS ''hectometers'' (lit (1 / 100)),
     row LENGTH KILOMETERS ''kilometers'' (lit (1 / 1000)),
     row LENGTH MILLIMETERS ''millimeters'' (lit 1000),
     row LENGTH MILE ''miles'' (lit (621371 / 1000000000)),
     row LENGTH INCHES ''inches'' (lit (393701 / 10000)),
     row LENGTH FEET ''feet'' (lit (328084 / 100000)),
     row TIME SECONDS ''seconds'' (lit 1),
     row TIME MILLISECONDS ''milliseconds'' (lit 1000),
     row TIME MINUTES ''minutes'' (fdiv (lit 1) (lit 60)),
     row TIME HOURS ''hours'' (fdiv (lit 1) (lit 3600)),
     row TIME DAYS ''days'' (fdiv (lit 1) (lit 86400)),
     row TIME MONTHS ''months'' (fdiv (lit 1) (lit 2592000)),
     row TIME YEARS ''years'' (fdiv (lit 1) (lit 31536000)),
     row MASS GRAMS ''grams'' (lit 1),
     row MASS CENTIGRAMS ''centigrams'' (lit 100),
     row MASS DECIGRAMS ''decigrams'' (lit 10),
     row MASS DECAGRAMS ''decagrams'' (lit (1 / 10)),
     row MASS HECTOGRAMS ''hectograms'' (lit (1 / 100)),
     row MASS MILLIGRAMS ''milligrams'' (lit 1000),
     row MASS KILOGRAMS ''kilograms'' (lit (1 / 1000)),
     row MASS POUNDS ''pounds'' (lit (220462 / 100000000)),
     row MASS OUNCES ''ounces'' (lit (3527396 / 100000000)),
     row DIGITAL BYTES ''bytes'' (lit 1),
     row DIGITAL KILOBYTES ''kilobytes'' (fdiv (lit 1) (lit 1024)),
     row DIGITAL MEGABYTES ''megabytes'' (fdiv (lit 1) (lit 1048576)),
     row DIGITAL GIGABYTES ''gigabytes'' (fdiv (lit 1) (lit 1073741824)),
     row DIGITAL TERABYTES ''terabytes'' (fdiv (lit 1) (lit 1099511627776)),
     row DIGITAL PETABYTES ''petabytes'' (fdiv (lit 1) (lit 1125899906842624)),
     row DIGITAL EXABYTES ''exabytes'' (fdiv (lit 1) (lit 1152921504606846976))]"

text \<open>\<open>unit_table[u]\<close> for a \<open>Unit\<close> \<open>u\<close>, as \<open>convertUnit\<close> and \<open>main\<close> write it.\<close>

definition table_at :: "Unit \<Rightarrow> UnitTable" where
  "table_at u = unit_table ! unit_index u"

datatype error = NotFound | IncompatibleFamilies

section \<open>Name lookup\<close>

text \<open>
  \<open>tolower\<close> of the C locale: the upper-case ASCII letters \<open>A\<close> to \<open>Z\<close> (codes 65 to 90)
  move to lower case, every other byte stays.
\<close>

definition tolower :: "char \<Rightarrow> char" where
  "tolower c =
     (let n = (of_char c :: nat) in if 65 \<le> n \<and> n \<le> 90 then char_of (n + 32) else c)"

text \<open>
  \<open>strcasecmp\<close> of the C library on two C strings, given as the lists of their bytes before
  the terminating NUL (so no byte of a list is NUL): the difference of the first two
  bytes that differ after \<open>tolower\<close>, the end of a string counting as the byte \<open>0\<close>.
\<close>

fun strcasecmp :: "string \<Rightarrow> string \<Rightarrow> int" where
  "strcasecmp [] [] = 0"
| "strcasecmp [] (b # bs) = - int (of_char (tolower b))"
| "strcasecmp (a # as) [] = int (of_char (tolower a))"
| "strcasecmp (a # as) (b # bs) =
     (if tolower a \<noteq> tolower b
      then int (of_char (tolower a)) - int (of_char (tolower b))
      else strcasecmp as bs)"

text \<open>
  \<open>matchArgument\<close> (lines 291-298): the loop over the table from index \<open>i\<close>, and the
  function itself, which starts it at \<open>0\<close>. The source returns \<open>-1\<close> when no name
  matches, and \<open>main\<close> tests for it: that is the error \<open>NotFound\<close>.
\<close>

function matchArgument_loop :: "string \<Rightarrow> nat \<Rightarrow> error + Unit" where
  "matchArgument_loop arg i =
     (if i < length unit_table
      then (if strcasecmp arg (name (unit_table ! i)) = 0
            then Inr (unit (unit_table ! i))
            else matchArgument_loop arg (i + 1))
      else Inl NotFound)"
  by pat_completeness auto
termination
  by (relation "measure (\<lambda>(arg, i). length unit_table - i)") auto

declare matchArgument_loop.simps [simp del]

definition matchArgument :: "string \<Rightarrow> error + Unit" where
  "matchArgument arg = matchArgument_loop arg 0"

section \<open>The conversion\<close>

text \<open>
  \<open>convertUnit\<close> (lines 246-288). The outer \<open>switch (from)\<close> has no \<open>break\<close> between its
  cases: when the inner \<open>switch (to)\<close> of a case takes its \<open>default\<close>, control falls into
  the next case of the outer switch. Each outer case is a function that ends in the next
  one, so the model falls through exactly where the source does. The \<open>default\<close> case
  prints a message and calls \<open>exit(1)\<close>: the error \<open>IncompatibleFamilies\<close>.
\<close>

definition from_default :: "double \<Rightarrow> Unit \<Rightarrow> Unit \<Rightarrow> error + double" where
  "from_default value from to =
     (if type (table_at from) \<noteq> type (table_at to) then Inl IncompatibleFamilies
      else
        let factor = fdiv (conversion_factor (table_at from)) (conversion_factor (table_at to))
        in Inr (fmul value factor))"

definition from_KELVIN :: "double \<Rightarrow> Unit \<Rightarrow> Unit \<Rightarrow> error + double" where
  "from_KELVIN value from to =
     (case to of
        CELSIUS \<Rightarrow> Inr (fsub value (lit (27315 / 100)))
      | FAHRENHEIT \<Rightarrow>
          Inr (fadd (fdiv (fmul (fsub value (lit (27315 / 100))) (lit 9)) (lit 5)) (lit 32))
      | _ \<Rightarrow> from_default value from to)"

definition from_FAHRENHEIT :: "double \<Rightarrow> Unit \<Rightarrow> Unit \<Rightarrow> error + double" where
  "from_FAHRENHEIT value from to =
     (case to of
        CELSIUS \<Rightarrow> Inr (fdiv (fmul (fsub value (lit 32)) (lit 5)) (lit 9))
      | KELVIN \<Rightarrow>
          Inr (fadd (fdiv (fmul (fsub value (lit 32)) (lit 5)) (lit 9)) (lit (27315 / 100)))
      | _ \<Rightarrow> from_KELVIN value from to)"

definition from_CELSIUS :: "double \<Rightarrow> Unit \<Rightarrow> Unit \<Rightarrow> error + double" where
  "from_CELSIUS value from to =
     (case to of
        FAHRENHEIT \<Rightarrow> Inr (fadd (fdiv (fmul value (lit 9)) (lit 5)) (lit 32))
      | KELVIN \<Rightarrow> Inr (fadd value (lit (27315 / 100)))
      | _ \<Rightarrow> from_FAHRENHEIT value from to)"

definition convertUnit :: "double \<Rightarrow> Unit \<Rightarrow> Unit \<Rightarrow> error + double" where
  "convertUnit value from to =
     (if from = to then Inr value
      else case from of
             CELSIUS \<Rightarrow> from_CELSIUS value from to
           | FAHRENHEIT \<Rightarrow> from_FAHRENHEIT value from to
           | KELVIN \<Rightarrow> from_KELVIN value from to
           | _ \<Rightarrow> from_default value from to)"

section \<open>The part of \<open>main\<close> that converts\<close>

text \<open>
  Lines 200-206: \<open>main\<close> passes the unit with the smaller enumerator first, whatever the
  order on the command line.
\<close>

definition convert_block :: "double \<Rightarrow> Unit \<Rightarrow> Unit \<Rightarrow> error + double" where
  "convert_block value from to =
     (if unit_index from < unit_index to then convertUnit value from to
      else convertUnit value to from)"

text \<open>
  \<open>round\<close> of the C library: the nearest integer, a half going away from zero. Its result
  is a double whenever its argument is one.
\<close>

fun c_round :: "double \<Rightarrow> double" where
  "c_round (Finite a) =
     Finite (of_int (if 0 \<le> a then \<lfloor>a + 1 / 2\<rfloor> else - \<lfloor>- a + 1 / 2\<rfloor>))"
| "c_round PInf = PInf"
| "c_round NInf = NInf"
| "c_round NaN = NaN"

text \<open>
  Lines 208-211. \<open>pow10 n\<close> stands for the library call \<open>pow(10, n)\<close>, whose code is not
  part of the program: it is a parameter. \<open>round_places\<close> is \<open>-1\<close> when the option was
  not given.
\<close>

definition round_result :: "(int \<Rightarrow> double) \<Rightarrow> int \<Rightarrow> double \<Rightarrow> double" where
  "round_result pow10 round_places result =
     (if 0 \<le> round_places
      then fdiv (c_round (fmul result (pow10 round_places))) (pow10 round_places)
      else result)"

text \<open>
  Lines 189-211: the two names are looked up, an unknown name ends the program, the value
  is converted and the result rounded. What is returned is the number that line 217
  prints as the result.
\<close>

definition main_result ::
  "(int \<Rightarrow> double) \<Rightarrow> int \<Rightarrow> double \<Rightarrow> string \<Rightarrow> string \<Rightarrow> error + double" where
  "main_result pow10 round_places value fromArg toArg =
     (case matchArgument fromArg of
        Inl e \<Rightarrow> Inl e
      | Inr from \<Rightarrow>
          (case matchArgument toArg of
             Inl e \<Rightarrow> Inl e
           | Inr to \<Rightarrow>
               (case convert_block value from to of
                  Inl e \<Rightarrow> Inl e
                | Inr result \<Rightarrow> Inr (round_result pow10 round_places result))))"

section \<open>The round trip\<close>

text \<open>
  The vocabulary of the round-trip property: \<open>round_trip\<close> converts from \<open>a\<close> to \<open>b\<close> and
  the result back to \<open>a\<close>, failing when either call of \<open>convertUnit\<close> fails, and
  \<open>close_to tol v res\<close> says that \<open>res\<close> is a finite double no further than \<open>tol\<close> from
  \<open>v\<close>.
\<close>

definition round_trip :: "double \<Rightarrow> Unit \<Rightarrow> Unit \<Rightarrow> error + double" where
  "round_trip value a b =
     (case convertUnit value a b of Inl e \<Rightarrow> Inl e | Inr w \<Rightarrow> convertUnit w b a)"

fun close_to :: "rat \<Rightarrow> rat \<Rightarrow> error + double \<Rightarrow> bool" where
  "close_to tol v (Inr (Finite r)) = (\<bar>r - v\<bar> \<le> tol)"
| "close_to tol v (Inr PInf) = False"
| "close_to tol v (Inr NInf) = False"
| "close_to tol v (Inr NaN) = False"
| "close_to tol v (Inl e) = False"

section \<open>Properties of the rounding\<close>

lemma pow2_le_iff: "(2::rat) powi a \<le> 2 powi b \<longleftrightarrow> a \<le> b"
proof
  assume "(2::rat) powi a \<le> 2 powi b"
  show "a \<le> b"
  proof (rule ccontr)
    assume "\<not> a \<le> b"
    then have "(2::rat) powi b < 2 powi a"
      by (intro power_int_strict_increasing) auto
    with \<open>(2::rat) powi a \<le> 2 powi b\<close> show False by simp
  qed
next
  assume "a \<le> b"
  then show "(2::rat) powi a \<le> 2 powi b"
    by (intro power_int_increasing) auto
qed

lemma pow2_less_iff: "(2::rat) powi a < 2 powi b \<longleftrightarrow> a < b"
  using pow2_le_iff [of b a] by (auto simp: not_le [symmetric])

lemma pow2_pos: "0 < (2::rat) powi a"
  by simp

lemma ilog2_between:
  assumes "0 < x"
  shows "2 powi (ilog2 x) \<le> x \<and> x < 2 powi (ilog2 x + 1)"
proof -
  obtain p q where pq: "quotient_of x = (p, q)" by (cases "quotient_of x")
  then have q: "0 < q" and x: "x = of_int p / of_int q"
    using quotient_of_denom_pos quotient_of_div by blast+
  from assms x q have p: "0 < p"
    by (simp add: zero_less_divide_iff)
  define k where "k = bitlen p - bitlen q"
  have bp: "1 \<le> bitlen p" and bq: "1 \<le> bitlen q"
    using p q by (simp_all add: bitlen_alt_def)
  have p1: "(2::rat) powi (bitlen p - 1) \<le> of_int p"
  proof -
    have "(2::int) ^ nat (bitlen p - 1) \<le> p" using bitlen_bounds [OF p] by simp
    then have "(of_int ((2::int) ^ nat (bitlen p - 1)) :: rat) \<le> of_int p"
      by (simp only: of_int_le_iff)
    then show ?thesis using bp by (simp add: power_int_def)
  qed
  have p2: "of_int p < (2::rat) powi (bitlen p)"
  proof -
    have "p < (2::int) ^ nat (bitlen p)" using bitlen_bounds [OF p] by simp
    then have "(of_int p :: rat) < of_int ((2::int) ^ nat (bitlen p))"
      by (simp only: of_int_less_iff)
    then show ?thesis using bp by (simp add: power_int_def)
  qed
  have q1: "(2::rat) powi (bitlen q - 1) \<le> of_int q"
  proof -
    have "(2::int) ^ nat (bitlen q - 1) \<le> q" using bitlen_bounds [OF q] by simp
    then have "(of_int ((2::int) ^ nat (bitlen q - 1)) :: rat) \<le> of_int q"
      by (simp only: of_int_le_iff)
    then show ?thesis using bq by (simp add: power_int_def)
  qed
  have q2: "of_int q < (2::rat) powi (bitlen q)"
  proof -
    have "q < (2::int) ^ nat (bitlen q)" using bitlen_bounds [OF q] by simp
    then have "(of_int q :: rat) < of_int ((2::int) ^ nat (bitlen q))"
      by (simp only: of_int_less_iff)
    then show ?thesis using bq by (simp add: power_int_def)
  qed
  have qpos: "(0::rat) < of_int q" using q by simp
  have lower: "2 powi (k - 1) \<le> x"
  proof -
    have "(2::rat) powi (k - 1) * of_int q \<le> 2 powi (k - 1) * 2 powi (bitlen q)"
      using q2 by (intro mult_left_mono) auto
    also have "\<dots> = 2 powi (bitlen p - 1)"
      by (simp add: k_def power_int_add [symmetric])
    also have "\<dots> \<le> of_int p" by (rule p1)
    finally show ?thesis using qpos by (simp add: x pos_le_divide_eq)
  qed
  have upper: "x < 2 powi (k + 1)"
  proof -
    have "of_int p < (2::rat) powi (bitlen p)" by (rule p2)
    also have "\<dots> = 2 powi (k + 1) * 2 powi (bitlen q - 1)"
      by (simp add: k_def power_int_add [symmetric])
    also have "\<dots> \<le> 2 powi (k + 1) * of_int q"
      using q1 by (intro mult_left_mono) auto
    finally show ?thesis using qpos by (simp add: x pos_divide_less_eq)
  qed
  have il: "ilog2 x = (if 2 powi k \<le> x then k else k - 1)"
    by (simp add: ilog2_def Let_def pq k_def)
  show ?thesis
  proof (cases "2 powi k \<le> x")
    case True
    with il upper show ?thesis by simp
  next
    case False
    with il lower show ?thesis by simp
  qed
qed

lemma ilog2_eqI:
  assumes "2 powi k \<le> x" and "x < 2 powi (k + 1)"
  shows "ilog2 x = k"
proof -
  have "0 < x" using assms(1) pow2_pos [of k] by linarith
  from ilog2_between [OF this] have a: "2 powi (ilog2 x) \<le> x" and b: "x < 2 powi (ilog2 x + 1)"
    by simp_all
  from a assms(2) have "(2::rat) powi (ilog2 x) < 2 powi (k + 1)" by linarith
  then have "ilog2 x < k + 1" by (simp only: pow2_less_iff)
  moreover from assms(1) b have "(2::rat) powi k < 2 powi (ilog2 x + 1)" by linarith
  then have "k < ilog2 x + 1" by (simp only: pow2_less_iff)
  ultimately show ?thesis by simp
qed

lemma round_even_error: "\<bar>of_int (round_even y) - y\<bar> \<le> 1 / 2"
proof -
  have "of_int \<lfloor>y\<rfloor> \<le> y" "y < of_int \<lfloor>y\<rfloor> + 1" by linarith+
  then show ?thesis by (auto simp: round_even_def Let_def)
qed

lemma round_even_eqI:
  assumes "\<bar>y - of_int m\<bar> < 1 / 2"
  shows "round_even y = m"
proof -
  have fl: "of_int \<lfloor>y\<rfloor> \<le> y" "y < of_int \<lfloor>y\<rfloor> + 1" by linarith+
  have "\<lfloor>y\<rfloor> = m \<or> \<lfloor>y\<rfloor> = m - 1"
  proof -
    have "(of_int (m - 1) :: rat) < of_int (\<lfloor>y\<rfloor> + 1)"
      unfolding of_int_add of_int_diff of_int_1 using assms fl by linarith
    moreover have "(of_int \<lfloor>y\<rfloor> :: rat) < of_int (m + 1)"
      unfolding of_int_add of_int_diff of_int_1 using assms fl by linarith
    ultimately have "m - 1 < \<lfloor>y\<rfloor> + 1" "\<lfloor>y\<rfloor> < m + 1" by (simp_all only: of_int_less_iff)
    then show ?thesis by linarith
  qed
  then show ?thesis
  proof
    assume "\<lfloor>y\<rfloor> = m"
    with assms fl show ?thesis by (auto simp: round_even_def Let_def)
  next
    assume "\<lfloor>y\<rfloor> = m - 1"
    with assms fl show ?thesis by (auto simp: round_even_def Let_def)
  qed
qed

lemma round_double_eqI:
  assumes k1: "2 powi k \<le> \<bar>x\<bar>" and k2: "\<bar>x\<bar> < 2 powi (k + 1)"
    and e: "e = max (k - 52) (- 1074)"
    and m: "\<bar>x / 2 powi e - of_int m\<bar> < 1 / 2"
    and r: "r = of_int m * 2 powi e"
    and fin: "\<bar>r\<bar> < 2 powi 1024"
  shows "round_double x = Finite r"
proof -
  have "0 < \<bar>x\<bar>" using k1 pow2_pos [of k] by linarith
  then have "x \<noteq> 0" by simp
  moreover have "ilog2 \<bar>x\<bar> = k" using k1 k2 by (rule ilog2_eqI)
  moreover have "round_even (x / 2 powi e) = m" using m by (rule round_even_eqI)
  ultimately show ?thesis using e r fin
    by (simp add: round_double_def Let_def del: power_int_numeral)
qed

lemma round_double_overflowI:
  assumes k1: "2 powi k \<le> \<bar>x\<bar>" and k2: "\<bar>x\<bar> < 2 powi (k + 1)"
    and e: "e = max (k - 52) (- 1074)"
    and m: "\<bar>x / 2 powi e - of_int m\<bar> < 1 / 2"
    and r: "2 powi 1024 \<le> \<bar>of_int m * (2::rat) powi e\<bar>"
    and pos: "0 < x"
  shows "round_double x = PInf"
proof -
  have "x \<noteq> 0" using pos by simp
  moreover have "ilog2 \<bar>x\<bar> = k" using k1 k2 by (rule ilog2_eqI)
  moreover have "round_even (x / 2 powi e) = m" using m by (rule round_even_eqI)
  ultimately show ?thesis using e r pos
    by (simp add: round_double_def Let_def del: power_int_numeral)
qed

text \<open>
  The error of one rounding. Below \<open>2^1023\<close> nothing overflows, and the result is off
  by at most half a unit in the last place: a \<open>2^-53\<close> part of the value, or \<open>2^-1075\<close>
  in the subnormal range.
\<close>

lemma round_double_error:
  assumes "x \<noteq> 0" and "\<bar>x\<bar> \<le> 2 powi 1023"
  shows "\<exists>r. round_double x = Finite r \<and>
    \<bar>r - x\<bar> \<le> 2 powi (max (ilog2 \<bar>x\<bar> - 52) (- 1074)) / 2"
proof -
  define e where "e = max (ilog2 \<bar>x\<bar> - 52) (- 1074)"
  define r where "r = of_int (round_even (x / 2 powi e)) * (2::rat) powi e"
  have pos: "0 < \<bar>x\<bar>" using assms(1) by simp
  have p: "(0::rat) < 2 powi e" by simp
  have "\<bar>r - x\<bar> = \<bar>of_int (round_even (x / 2 powi e)) - x / 2 powi e\<bar> * 2 powi e"
  proof -
    have "r - x = (of_int (round_even (x / 2 powi e)) - x / 2 powi e) * 2 powi e"
      using p by (simp add: r_def field_simps)
    then show ?thesis using p by (simp add: abs_mult)
  qed
  also have "\<dots> \<le> (1 / 2) * 2 powi e"
    using p round_even_error [of "x / 2 powi e"] by (intro mult_right_mono) simp_all
  finally have err: "\<bar>r - x\<bar> \<le> 2 powi e / 2" by simp
  have k: "\<bar>x\<bar> < 2 powi (ilog2 \<bar>x\<bar> + 1)" using ilog2_between [OF pos] by simp
  have "ilog2 \<bar>x\<bar> < 1024"
  proof -
    from ilog2_between [OF pos] assms(2) have "(2::rat) powi (ilog2 \<bar>x\<bar>) \<le> 2 powi 1023" by linarith
    then have "ilog2 \<bar>x\<bar> \<le> 1023" by (simp only: pow2_le_iff)
    then show ?thesis by simp
  qed
  then have "e \<le> 971" by (simp add: e_def)
  then have "(2::rat) powi e \<le> 2 powi 971" by (simp only: pow2_le_iff)
  with err have "\<bar>r - x\<bar> \<le> 2 powi 971 / 2" by linarith
  moreover have "(2::rat) powi 971 / 2 + 2 powi 1023 < 2 powi 1024" by simp
  ultimately have "\<bar>r\<bar> < 2 powi 1024" using assms(2) by linarith
  then have "round_double x = Finite r"
    using assms(1) by (simp add: round_double_def Let_def e_def r_def del: power_int_numeral)
  with err show ?thesis unfolding e_def by blast
qed

lemma round_double_relative:
  assumes "2 powi (- 1022) \<le> \<bar>x\<bar>" and "\<bar>x\<bar> \<le> 2 powi 1023"
  shows "\<exists>r. round_double x = Finite r \<and> \<bar>r - x\<bar> \<le> \<bar>x\<bar> / 2 ^ 53"
proof -
  have pos: "0 < \<bar>x\<bar>" using assms(1) pow2_pos [of "- 1022"] by linarith
  then have nz: "x \<noteq> 0" by simp
  have k: "2 powi (ilog2 \<bar>x\<bar>) \<le> \<bar>x\<bar>" using ilog2_between [OF pos] by simp
  have "(2::rat) powi (- 1022) < 2 powi (ilog2 \<bar>x\<bar> + 1)"
    using ilog2_between [OF pos] assms(1) by linarith
  then have "- 1022 < ilog2 \<bar>x\<bar> + 1" by (simp only: pow2_less_iff)
  then have e: "max (ilog2 \<bar>x\<bar> - 52) (- 1074) = ilog2 \<bar>x\<bar> - 52" by simp
  have "(2::rat) powi (ilog2 \<bar>x\<bar> - 52) / 2 = 2 powi (ilog2 \<bar>x\<bar>) / 2 ^ 53"
    by (simp add: power_int_diff)
  also have "\<dots> \<le> \<bar>x\<bar> / 2 ^ 53" using k by (simp add: divide_right_mono)
  finally have "(2::rat) powi (ilog2 \<bar>x\<bar> - 52) / 2 \<le> \<bar>x\<bar> / 2 ^ 53" .
  with round_double_error [OF nz assms(2)] e show ?thesis by fastforce
qed

lemma round_double_absolute:
  assumes "\<bar>x\<bar> \<le> 2 powi 1023"
  shows "\<exists>r. round_double x = Finite r \<and> \<bar>r - x\<bar> \<le> \<bar>x\<bar> / 2 ^ 53 + 1 / 2 ^ 1075"
proof (cases "2 powi (- 1022) \<le> \<bar>x\<bar>")
  case True
  from round_double_relative [OF True assms] show ?thesis by fastforce
next
  case False
  show ?thesis
  proof (cases "x = 0")
    case True
    then show ?thesis by (simp add: round_double_def)
  next
    case nz: False
    then have pos: "0 < \<bar>x\<bar>" by simp
    from False ilog2_between [OF pos] have "(2::rat) powi (ilog2 \<bar>x\<bar>) < 2 powi (- 1022)" by linarith
    then have "ilog2 \<bar>x\<bar> < - 1022" by (simp only: pow2_less_iff)
    then have e: "max (ilog2 \<bar>x\<bar> - 52) (- 1074) = - 1074" by simp
    have half: "(2::rat) powi (- 1074) / 2 = 1 / 2 ^ 1075" by (simp add: power_int_minus_divide)
    from round_double_error [OF nz assms] obtain r
      where r: "round_double x = Finite r"
        and "\<bar>r - x\<bar> \<le> 2 powi (max (ilog2 \<bar>x\<bar> - 52) (- 1074)) / 2" by blast
    then have "\<bar>r - x\<bar> \<le> 2 powi (- 1074) / 2" by (simp only: e)
    then have small: "\<bar>r - x\<bar> \<le> 1 / 2 ^ 1075" by (simp only: half)
    have "0 \<le> \<bar>x\<bar> / 2 ^ 53" by simp
    have mono: "a \<le> c \<Longrightarrow> 0 \<le> b \<Longrightarrow> a \<le> b + c" for a b c :: rat by linarith
    from small \<open>0 \<le> \<bar>x\<bar> / 2 ^ 53\<close>
    have "\<bar>r - x\<bar> \<le> \<bar>x\<bar> / 2 ^ 53 + 1 / 2 ^ 1075" by (rule mono)
    with r show ?thesis by blast
  qed
qed

lemma round_double_near:
  assumes "\<bar>x\<bar> \<le> 10 ^ 300"
  shows "\<exists>r. round_double x = Finite r \<and>
    \<bar>r - x\<bar> \<le> \<bar>x\<bar> / 1000000000000000 + 1 / 1000000000000000"
proof -
  have "(10::rat) ^ 300 \<le> 2 powi 1023" by simp
  with assms have "\<bar>x\<bar> \<le> 2 powi 1023" by linarith
  from round_double_absolute [OF this] obtain r
    where r: "round_double x = Finite r" and e: "\<bar>r - x\<bar> \<le> \<bar>x\<bar> / 2 ^ 53 + 1 / 2 ^ 1075"
    by blast
  have "\<bar>x\<bar> / 2 ^ 53 \<le> \<bar>x\<bar> / 1000000000000000"
    by (intro divide_left_mono) simp_all
  moreover have "(1::rat) / 2 ^ 1075 \<le> 1 / 1000000000000000"
    by (intro divide_left_mono) simp_all
  ultimately have "\<bar>x\<bar> / 2 ^ 53 + 1 / 2 ^ 1075 \<le>
      \<bar>x\<bar> / 1000000000000000 + 1 / 1000000000000000"
    by (rule add_mono)
  with e have "\<bar>r - x\<bar> \<le> \<bar>x\<bar> / 1000000000000000 + 1 / 1000000000000000"
    by (rule order_trans)
  with r show ?thesis by blast
qed

lemma round_double_near_relative:
  assumes "1 / 10 ^ 305 \<le> \<bar>x\<bar>" and "\<bar>x\<bar> \<le> 10 ^ 305"
  shows "\<exists>r. round_double x = Finite r \<and> \<bar>r - x\<bar> \<le> \<bar>x\<bar> / 1000000000000000"
proof -
  have "(10::rat) ^ 305 \<le> 2 powi 1023" by simp
  with assms have hi: "\<bar>x\<bar> \<le> 2 powi 1023" by linarith
  have "(2::rat) powi (- 1022) \<le> 1 / 10 ^ 305" by (simp add: power_int_minus_divide field_simps)
  with assms have lo: "2 powi (- 1022) \<le> \<bar>x\<bar>" by linarith
  from round_double_relative [OF lo hi] obtain r
    where r: "round_double x = Finite r" and e: "\<bar>r - x\<bar> \<le> \<bar>x\<bar> / 2 ^ 53"
    by blast
  have "\<bar>x\<bar> / 2 ^ 53 \<le> \<bar>x\<bar> / 1000000000000000"
    by (intro divide_left_mono) simp_all
  with e have "\<bar>r - x\<bar> \<le> \<bar>x\<bar> / 1000000000000000" by (rule order_trans)
  with r show ?thesis by blast
qed

lemma within_range:
  assumes "\<bar>x\<bar> \<le> 1000000 * s" and "s \<le> 10 ^ 280"
  shows "\<bar>x\<bar> \<le> (10::rat) ^ 300"
proof -
  have "1000000 * s \<le> 1000000 * (10::rat) ^ 280" using assms(2) by simp
  also have "\<dots> \<le> 10 ^ 300" by simp
  finally show ?thesis using assms(1) by linarith
qed

text \<open>
  One operation of a formula, rounded: when the computed operand \<open>w\<close> is within
  \<open>E * s / 10^15\<close> of the exact operand \<open>x\<close>, the computed result is within
  \<open>E' * s / 10^15\<close> of the exact result, \<open>s\<close> being a scale no smaller than \<open>1\<close> and the
  value, and \<open>M * s\<close> a bound of the exact values.
\<close>

lemma round_step:
  assumes d: "\<bar>y - x\<bar> \<le> d" and m: "\<bar>x\<bar> \<le> m"
    and r: "m + d \<le> 1000000 * s" and s: "s \<le> 10 ^ 280"
  shows "\<exists>w. round_double y = Finite w \<and>
    \<bar>w - x\<bar> \<le> d + m / 1000000000000000 + d / 1000000000000000 + 1 / 1000000000000000"
proof -
  have "\<bar>y\<bar> \<le> \<bar>x\<bar> + \<bar>y - x\<bar>" by linarith
  with d m have y: "\<bar>y\<bar> \<le> m + d" by linarith
  with r have "\<bar>y\<bar> \<le> 1000000 * s" by linarith
  from round_double_near [OF within_range [OF this s]] obtain w
    where w: "round_double y = Finite w"
      and e: "\<bar>w - y\<bar> \<le> \<bar>y\<bar> / 1000000000000000 + 1 / 1000000000000000" by blast
  define a where "a = \<bar>w - y\<bar>"
  define b where "b = \<bar>y\<bar>"
  define c where "c = \<bar>y - x\<bar>"
  have "\<bar>w - x\<bar> \<le> a + c" unfolding a_def c_def by linarith
  moreover have "a \<le> b / 1000000000000000 + 1 / 1000000000000000" using e unfolding a_def b_def .
  moreover have "b \<le> m + d" using y unfolding b_def .
  moreover have "c \<le> d" using d unfolding c_def .
  ultimately have "\<bar>w - x\<bar> \<le>
      d + m / 1000000000000000 + d / 1000000000000000 + 1 / 1000000000000000"
    by linarith
  with w show ?thesis by blast
qed

lemma scaled_step:
  assumes d: "\<bar>y - x\<bar> \<le> D * s / 1000000000000000" and m: "\<bar>x\<bar> \<le> M * s"
    and s1: "1 \<le> s" and s3: "s \<le> 10 ^ 280"
    and D: "0 \<le> D" "D \<le> 100000" and M: "M \<le> 100000" and E: "D + M + 2 \<le> E"
  shows "\<exists>w. round_double y = Finite w \<and> \<bar>w - x\<bar> \<le> E * s / 1000000000000000"
proof -
  define ds where "ds = D * s"
  define ms where "ms = M * s"
  define es where "es = E * s"
  have s0: "0 \<le> s" using s1 by linarith
  have ds0: "0 \<le> ds" unfolding ds_def using D(1) s0 by simp
  have ds1: "ds \<le> 100000 * s" unfolding ds_def using D(2) s0 by (rule mult_right_mono)
  have ms1: "ms \<le> 100000 * s" unfolding ms_def using M s0 by (rule mult_right_mono)
  have "(D + M + 2) * s \<le> E * s" using E s0 by (rule mult_right_mono)
  then have es1: "ds + ms + 2 * s \<le> es" unfolding ds_def ms_def es_def by (simp add: algebra_simps)
  have d': "\<bar>y - x\<bar> \<le> ds / 1000000000000000" using d unfolding ds_def .
  have m': "\<bar>x\<bar> \<le> ms" using m unfolding ms_def .
  have r: "ms + ds / 1000000000000000 \<le> 1000000 * s" using ds0 ds1 ms1 s0 by linarith
  from round_step [OF d' m' r s3] obtain w where w: "round_double y = Finite w"
    and e: "\<bar>w - x\<bar> \<le> ds / 1000000000000000 + ms / 1000000000000000 +
        ds / 1000000000000000 / 1000000000000000 + 1 / 1000000000000000"
    by blast
  define a where "a = \<bar>w - x\<bar>"
  have "a \<le> ds / 1000000000000000 + ms / 1000000000000000 +
        ds / 1000000000000000 / 1000000000000000 + 1 / 1000000000000000"
    using e unfolding a_def .
  then have "a \<le> es / 1000000000000000" using ds0 ds1 es1 s1 by linarith
  then have "\<bar>w - x\<bar> \<le> E * s / 1000000000000000" unfolding a_def es_def .
  with w show ?thesis by blast
qed

lemma add_step:
  assumes b: "\<bar>w - x\<bar> \<le> E * s / 1000000000000000" and m: "\<bar>x\<bar> \<le> M * s"
    and s1: "1 \<le> s" and s3: "s \<le> 10 ^ 280"
    and c: "0 \<le> E" "E \<le> 100000" "M + \<bar>c\<bar> \<le> M'" "M' \<le> 100000" "E + M' + 2 \<le> E'"
  shows "\<exists>w'. round_double (w + c) = Finite w' \<and>
    \<bar>w' - (x + c)\<bar> \<le> E' * s / 1000000000000000 \<and> \<bar>x + c\<bar> \<le> M' * s"
proof -
  have s0: "0 \<le> s" using s1 by linarith
  have "\<bar>c\<bar> * 1 \<le> \<bar>c\<bar> * s" using s1 by (intro mult_left_mono) simp_all
  moreover have "(M + \<bar>c\<bar>) * s \<le> M' * s" using c(3) s0 by (rule mult_right_mono)
  moreover have "\<bar>x + c\<bar> \<le> \<bar>x\<bar> + \<bar>c\<bar>" by (rule abs_triangle_ineq)
  ultimately have m': "\<bar>x + c\<bar> \<le> M' * s" using m by (simp add: algebra_simps)
  have d: "\<bar>(w + c) - (x + c)\<bar> \<le> E * s / 1000000000000000" using b by simp
  from scaled_step [OF d m' s1 s3 c(1) c(2) c(4) c(5)] m' show ?thesis by blast
qed

lemma sub_step:
  assumes b: "\<bar>w - x\<bar> \<le> E * s / 1000000000000000" and m: "\<bar>x\<bar> \<le> M * s"
    and s1: "1 \<le> s" and s3: "s \<le> 10 ^ 280"
    and c: "0 \<le> E" "E \<le> 100000" "M + \<bar>c\<bar> \<le> M'" "M' \<le> 100000" "E + M' + 2 \<le> E'"
  shows "\<exists>w'. round_double (w - c) = Finite w' \<and>
    \<bar>w' - (x - c)\<bar> \<le> E' * s / 1000000000000000 \<and> \<bar>x - c\<bar> \<le> M' * s"
proof -
  have c': "M + \<bar>- c\<bar> \<le> M'" using c(3) by simp
  from add_step [OF b m s1 s3 c(1) c(2) c' c(4) c(5)] show ?thesis by simp
qed

lemma mul_step:
  assumes b: "\<bar>w - x\<bar> \<le> E * s / 1000000000000000" and m: "\<bar>x\<bar> \<le> M * s"
    and s1: "1 \<le> s" and s3: "s \<le> 10 ^ 280"
    and k: "0 \<le> k"
    and c: "0 \<le> E" "E * k \<le> 100000" "M * k \<le> M'" "M' \<le> 100000" "E * k + M' + 2 \<le> E'"
  shows "\<exists>w'. round_double (w * k) = Finite w' \<and>
    \<bar>w' - x * k\<bar> \<le> E' * s / 1000000000000000 \<and> \<bar>x * k\<bar> \<le> M' * s"
proof -
  have s0: "0 \<le> s" using s1 by linarith
  have "\<bar>x * k\<bar> = \<bar>x\<bar> * k" using k by (simp add: abs_mult)
  also have "\<dots> \<le> (M * s) * k" using m k by (rule mult_right_mono)
  also have "\<dots> = (M * k) * s" by simp
  also have "\<dots> \<le> M' * s" using c(3) s0 by (rule mult_right_mono)
  finally have m': "\<bar>x * k\<bar> \<le> M' * s" .
  have "\<bar>w * k - x * k\<bar> = \<bar>w - x\<bar> * k" using k by (simp add: abs_mult flip: left_diff_distrib)
  also have "\<dots> \<le> (E * s / 1000000000000000) * k" using b k by (rule mult_right_mono)
  also have "\<dots> = (E * k) * s / 1000000000000000" by simp
  finally have d: "\<bar>w * k - x * k\<bar> \<le> (E * k) * s / 1000000000000000" .
  have "0 \<le> E * k" using c(1) k by simp
  from scaled_step [OF d m' s1 s3 this c(2) c(4) c(5)] m' show ?thesis by blast
qed

lemma div_step:
  assumes b: "\<bar>w - x\<bar> \<le> E * s / 1000000000000000" and m: "\<bar>x\<bar> \<le> M * s"
    and s1: "1 \<le> s" and s3: "s \<le> 10 ^ 280"
    and k: "0 < k"
    and c: "0 \<le> E" "E / k \<le> 100000" "M / k \<le> M'" "M' \<le> 100000" "E / k + M' + 2 \<le> E'"
  shows "\<exists>w'. round_double (w / k) = Finite w' \<and>
    \<bar>w' - x / k\<bar> \<le> E' * s / 1000000000000000 \<and> \<bar>x / k\<bar> \<le> M' * s"
proof -
  have k': "0 \<le> 1 / k" using k by simp
  have c': "E * (1 / k) \<le> 100000" "M * (1 / k) \<le> M'" "E * (1 / k) + M' + 2 \<le> E'"
    using c by simp_all
  from mul_step [OF b m s1 s3 k' c(1) c'(1) c'(2) c(4) c'(3)] show ?thesis by simp
qed

text \<open>
  From the bound of a chain to the tolerance of the round trip: an error of at most
  \<open>5000 * max(1, t) / 10^15\<close> is within the relative tolerance \<open>10^-9\<close> of \<open>t\<close> when
  \<open>t\<close> is above \<open>1\<close>, and below \<open>5 * 10^-12\<close> otherwise.
\<close>

lemma tolerance_bound:
  fixes a t s E :: rat
  assumes a: "a \<le> E * s / 1000000000000000" and E: "E \<le> 5000" and s: "s = max 1 t"
  shows "a \<le> max (t / 1000000000) (5 / 1000000000000)"
proof -
  have s0: "0 \<le> s" unfolding s by simp
  have "E * s \<le> 5000 * s" using E s0 by (rule mult_right_mono)
  with a have b: "a \<le> 5000 * s / 1000000000000000" by linarith
  show ?thesis
  proof (cases "t \<le> 1")
    case True
    then have "s = 1" unfolding s by simp
    with b have "a \<le> 5 / 1000000000000" by simp
    then show ?thesis by (rule max.coboundedI2)
  next
    case False
    then have "s = t" unfolding s by simp
    with b False have "a \<le> t / 1000000000" by linarith
    then show ?thesis by (rule max.coboundedI1)
  qed
qed

text \<open>
  In the normal range a rounding multiplies by a number within \<open>10^-15\<close> of \<open>1\<close>. The
  round trip of a ratio-based family multiplies the value by four such numbers.
\<close>

lemma round_double_factor:
  assumes "1 / 10 ^ 305 \<le> \<bar>x\<bar>" and "\<bar>x\<bar> \<le> 10 ^ 305"
  shows "\<exists>r t. round_double x = Finite r \<and> r = x * t \<and> \<bar>t - 1\<bar> \<le> 1 / 1000000000000000"
proof -
  from round_double_near_relative [OF assms] obtain r
    where r: "round_double x = Finite r" and e: "\<bar>r - x\<bar> \<le> \<bar>x\<bar> / 1000000000000000"
    by blast
  have "0 < (1::rat) / 10 ^ 305" by simp
  with assms(1) have pos: "0 < \<bar>x\<bar>" by linarith
  then have nz: "x \<noteq> 0" by simp
  define t where "t = r / x"
  have rt: "r = x * t" using nz by (simp add: t_def)
  have "t - 1 = (r - x) / x" using nz by (simp add: t_def diff_divide_distrib)
  then have "\<bar>t - 1\<bar> = \<bar>r - x\<bar> / \<bar>x\<bar>" by (simp add: abs_divide)
  also have "\<dots> \<le> (\<bar>x\<bar> / 1000000000000000) / \<bar>x\<bar>"
    using e pos by (intro divide_right_mono) simp_all
  also have "\<dots> = 1 / 1000000000000000" using pos by simp
  finally have "\<bar>t - 1\<bar> \<le> 1 / 1000000000000000" .
  with r rt show ?thesis by blast
qed

lemma near_one_mult:
  fixes p t :: rat
  assumes p: "\<bar>p - 1\<bar> \<le> e" and t: "\<bar>t - 1\<bar> \<le> u" and e: "e \<le> 1"
  shows "\<bar>p * t - 1\<bar> \<le> e + 2 * u"
proof -
  have u0: "0 \<le> u" using t by linarith
  define x where "x = (p - 1) * (t - 1)"
  have "p * t - 1 = x + (p - 1) + (t - 1)" by (simp add: x_def algebra_simps)
  moreover have "\<bar>x + (p - 1) + (t - 1)\<bar> \<le> \<bar>x\<bar> + \<bar>p - 1\<bar> + \<bar>t - 1\<bar>" by linarith
  ultimately have tri: "\<bar>p * t - 1\<bar> \<le> \<bar>x\<bar> + \<bar>p - 1\<bar> + \<bar>t - 1\<bar>" by simp
  have "\<bar>x\<bar> = \<bar>p - 1\<bar> * \<bar>t - 1\<bar>" by (simp add: x_def abs_mult)
  also have "\<dots> \<le> e * u" using p t by (intro mult_mono) simp_all
  also have "\<dots> \<le> 1 * u" using e u0 by (rule mult_right_mono)
  finally have "\<bar>x\<bar> \<le> u" by simp
  with tri p t show ?thesis by linarith
qed

lemma abs_mult_range:
  fixes x y :: rat
  assumes "lx \<le> \<bar>x\<bar>" "\<bar>x\<bar> \<le> hx" "ly \<le> \<bar>y\<bar>" "\<bar>y\<bar> \<le> hy" "0 \<le> lx" "0 \<le> ly"
  shows "lx * ly \<le> \<bar>x * y\<bar> \<and> \<bar>x * y\<bar> \<le> hx * hy"
  unfolding abs_mult using assms by (auto intro!: mult_mono)

lemma near_one_range:
  fixes t :: rat
  assumes "\<bar>t - 1\<bar> \<le> e" and "e \<le> 1 / 2"
  shows "1 / 2 \<le> \<bar>t\<bar> \<and> \<bar>t\<bar> \<le> 2"
  using assms by linarith

lemma ratio_round_trip:
  assumes a: "1 / 2 ^ 60 \<le> a" "a \<le> 1000" and b: "1 / 2 ^ 60 \<le> b" "b \<le> 1000"
    and v: "1 / 10 ^ 280 \<le> \<bar>v\<bar>" "\<bar>v\<bar> \<le> 10 ^ 280"
  shows "\<exists>f g w r. round_double (a / b) = Finite f \<and> round_double (b / a) = Finite g \<and>
    round_double (v * f) = Finite w \<and> round_double (w * g) = Finite r \<and>
    \<bar>r - v\<bar> \<le> \<bar>v\<bar> / 1000000000"
proof -
  have apos: "0 < a" and bpos: "0 < b"
    using a(1) b(1) by (simp_all add: less_le_trans [of 0 "1 / 2 ^ 60"])
  have quot: "1 / 10 ^ 22 \<le> x / y \<and> x / y \<le> 10 ^ 22"
    if "1 / 2 ^ 60 \<le> x" "x \<le> 1000" "1 / 2 ^ 60 \<le> y" "y \<le> 1000" for x y :: rat
  proof -
    have ypos: "0 < y" using that(3) by (simp add: less_le_trans [of 0 "1 / 2 ^ 60"])
    have "x / y \<le> 1000 / (1 / 2 ^ 60)"
      using that ypos by (intro frac_le) simp_all
    moreover have "(1 / 2 ^ 60) / 1000 \<le> x / y"
      using that ypos by (intro frac_le) simp_all
    ultimately show ?thesis by simp
  qed
  have q: "1 / 10 ^ 22 \<le> a / b" "a / b \<le> 10 ^ 22" using quot [OF a b] by simp_all
  have q': "1 / 10 ^ 22 \<le> b / a" "b / a \<le> 10 ^ 22" using quot [OF b a] by simp_all
  have qpos: "0 < a / b" using apos bpos by simp
  have in_range: "1 / 10 ^ 305 \<le> \<bar>x\<bar> \<and> \<bar>x\<bar> \<le> 10 ^ 305"
    if "1 / 10 ^ 22 \<le> x" "x \<le> 10 ^ 22" for x :: rat
  proof -
    have "(1::rat) / 10 ^ 305 \<le> 1 / 10 ^ 22" "(10::rat) ^ 22 \<le> 10 ^ 305" "(0::rat) < 1 / 10 ^ 22"
      by simp_all
    with that show ?thesis by linarith
  qed
  from round_double_factor [of "a / b"] in_range [OF q] obtain f t1
    where f: "round_double (a / b) = Finite f" and ft: "f = a / b * t1"
      and t1: "\<bar>t1 - 1\<bar> \<le> 1 / 1000000000000000" by blast
  from round_double_factor [of "b / a"] in_range [OF q'] obtain g t2
    where g: "round_double (b / a) = Finite g" and gt: "g = b / a * t2"
      and t2: "\<bar>t2 - 1\<bar> \<le> 1 / 1000000000000000" by blast
  \<comment> \<open>the first product\<close>
  have r1: "1 / 2 \<le> \<bar>t1\<bar> \<and> \<bar>t1\<bar> \<le> 2" using t1 by (rule near_one_range) simp
  have qa: "1 / 10 ^ 22 \<le> \<bar>a / b\<bar>" "\<bar>a / b\<bar> \<le> 10 ^ 22"
    using q by (simp_all only: abs_of_pos [OF qpos])
  have "1 / 10 ^ 22 * (1 / 2) \<le> \<bar>a / b * t1\<bar> \<and> \<bar>a / b * t1\<bar> \<le> 10 ^ 22 * 2"
    using qa r1 by (intro abs_mult_range) simp_all
  then have fr: "1 / 10 ^ 22 * (1 / 2) \<le> \<bar>f\<bar>" "\<bar>f\<bar> \<le> 10 ^ 22 * 2" by (simp_all add: ft)
  have "1 / 10 ^ 280 * (1 / 10 ^ 22 * (1 / 2)) \<le> \<bar>v * f\<bar> \<and> \<bar>v * f\<bar> \<le> 10 ^ 280 * (10 ^ 22 * 2)"
    using v fr by (intro abs_mult_range) simp_all
  moreover have "(1::rat) / 10 ^ 305 \<le> 1 / 10 ^ 280 * (1 / 10 ^ 22 * (1 / 2))"
    "(10::rat) ^ 280 * (10 ^ 22 * 2) \<le> 10 ^ 305" by simp_all
  ultimately have "1 / 10 ^ 305 \<le> \<bar>v * f\<bar>" "\<bar>v * f\<bar> \<le> 10 ^ 305" by linarith+
  from round_double_factor [OF this] obtain w t3
    where w: "round_double (v * f) = Finite w" and wt: "w = v * f * t3"
      and t3: "\<bar>t3 - 1\<bar> \<le> 1 / 1000000000000000" by blast
  \<comment> \<open>the second product is the value times three factors near one\<close>
  have wg: "w * g = v * (t1 * t2 * t3)"
    using apos bpos by (simp add: wt ft gt)
  have p2: "\<bar>t1 * t2 - 1\<bar> \<le> 3 / 1000000000000000"
    using near_one_mult [OF t1 t2] by simp
  have p3: "\<bar>t1 * t2 * t3 - 1\<bar> \<le> 5 / 1000000000000000"
    using near_one_mult [OF p2 t3] by simp
  have r3: "1 / 2 \<le> \<bar>t1 * t2 * t3\<bar> \<and> \<bar>t1 * t2 * t3\<bar> \<le> 2" using p3 by (rule near_one_range) simp
  have "1 / 10 ^ 280 * (1 / 2) \<le> \<bar>v * (t1 * t2 * t3)\<bar> \<and> \<bar>v * (t1 * t2 * t3)\<bar> \<le> 10 ^ 280 * 2"
    using v r3 by (intro abs_mult_range) simp_all
  moreover have "(1::rat) / 10 ^ 305 \<le> 1 / 10 ^ 280 * (1 / 2)" "(10::rat) ^ 280 * 2 \<le> 10 ^ 305"
    by simp_all
  ultimately have "1 / 10 ^ 305 \<le> \<bar>w * g\<bar>" "\<bar>w * g\<bar> \<le> 10 ^ 305" unfolding wg by linarith+
  from round_double_factor [OF this] obtain r t4
    where r: "round_double (w * g) = Finite r" and rt: "r = w * g * t4"
      and t4: "\<bar>t4 - 1\<bar> \<le> 1 / 1000000000000000" by blast
  have p4: "\<bar>t1 * t2 * t3 * t4 - 1\<bar> \<le> 7 / 1000000000000000"
    using near_one_mult [OF p3 t4] by simp
  have "r = v * (t1 * t2 * t3) * t4" by (simp only: rt wg)
  then have "r - v = v * (t1 * t2 * t3 * t4 - 1)" by (simp add: algebra_simps)
  then have "\<bar>r - v\<bar> = \<bar>v\<bar> * \<bar>t1 * t2 * t3 * t4 - 1\<bar>" by (simp add: abs_mult)
  also have "\<dots> \<le> \<bar>v\<bar> * (7 / 1000000000000000)"
    using p4 by (intro mult_left_mono) simp_all
  also have "\<dots> \<le> \<bar>v\<bar> / 1000000000" by simp
  finally have "\<bar>r - v\<bar> \<le> \<bar>v\<bar> / 1000000000" .
  with f g w r show ?thesis by blast
qed

lemma ratio_finite:
  assumes a: "1 / 2 ^ 60 \<le> a" "a \<le> 1000" and b: "1 / 2 ^ 60 \<le> b" "b \<le> 1000"
  shows "\<exists>f. round_double (a / b) = Finite f"
proof -
  have bpos: "0 < b" using b(1) by (simp add: less_le_trans [of 0 "1 / 2 ^ 60"])
  have "a / b \<le> 1000 / (1 / 2 ^ 60)" using a b bpos by (intro frac_le) simp_all
  moreover have "(1 / 2 ^ 60) / 1000 \<le> a / b" using a b bpos by (intro frac_le) simp_all
  moreover have "(1::rat) / 10 ^ 305 \<le> (1 / 2 ^ 60) / 1000" "1000 / (1 / 2 ^ 60) \<le> (10::rat) ^ 305"
    "(0::rat) < (1 / 2 ^ 60) / 1000" by simp_all
  ultimately have "1 / 10 ^ 305 \<le> \<bar>a / b\<bar>" "\<bar>a / b\<bar> \<le> 10 ^ 305" by linarith+
  from round_double_near_relative [OF this] show ?thesis by blast
qed

section \<open>The constants of the program as doubles\<close>

text \<open>
  Each lemma gives the double nearest to a constant of the source, or the rounded result
  of an operation at a fixture, with the binary exponent and the integer significand
  that prove it.
\<close>

lemma round_0: "round_double 0 = Finite 0"
  by (simp add: round_double_def)

lemma round_5: "round_double (5) = Finite (5)"
  by (rule round_double_eqI [where k = 2 and e = "- 50" and m = 5629499534213120]) simp_all

lemma round_9: "round_double (9) = Finite (9)"
  by (rule round_double_eqI [where k = 3 and e = "- 49" and m = 5066549580791808]) simp_all

lemma round_32: "round_double (32) = Finite (32)"
  by (rule round_double_eqI [where k = 5 and e = "- 47" and m = 4503599627370496]) simp_all

lemma round_27315: "round_double (5463 / 20) = Finite (2402652809016115 / 8796093022208)"
  by (rule round_double_eqI [where k = 8 and e = "- 44" and m = 4805305618032230]) simp_all

lemma round_37315: "round_double (7463 / 20) = Finite (3282262111236915 / 8796093022208)"
  by (rule round_double_eqI [where k = 8 and e = "- 44" and m = 6564524222473830]) simp_all

lemma round_milli: "round_double (1 / 1000) = Finite (1152921504606847 / 1152921504606846976)"
  by (rule round_double_eqI [where k = "- 10" and e = "- 62" and m = 4611686018427388]) simp_all

lemma round_100_plus: "round_double (3282262111236915 / 8796093022208) = Finite (3282262111236915 / 8796093022208)"
  by (rule round_double_eqI [where k = 8 and e = "- 44" and m = 6564524222473830]) simp_all

lemma round_inv_milli: "round_double (1152921504606846976 / 1152921504606847) = Finite (1000)"
  by (rule round_double_eqI [where k = 9 and e = "- 43" and m = 8796093022208000]) simp_all

lemma round_milli_again: "round_double (1152921504606847 / 1152921504606846976) = Finite (1152921504606847 / 1152921504606846976)"
  by (rule round_double_eqI [where k = "- 10" and e = "- 62" and m = 4611686018427388]) simp_all

lemma round_micro: "round_double (1 / 1000000) = Finite (4722366482869645 / 4722366482869645213696)"
  by (rule round_double_eqI [where k = "- 20" and e = "- 72" and m = 4722366482869645]) simp_all

lemma round_micro_plus: "round_double (1289914409518209965616525 / 4722366482869645213696) = Finite (150165801113263 / 549755813888)"
  by (rule round_double_eqI [where k = 8 and e = "- 44" and m = 4805305635624416]) simp_all

lemma round_micro_back: "round_double (8796093 / 8796093022208) = Finite (8796093 / 8796093022208)"
  by (rule round_double_eqI [where k = "- 20" and e = "- 72" and m = 4722366470946816]) simp_all

lemma round_tiny: "round_double (1 / 100000000000000000000) = Finite (6646139978924579 / 664613997892457936451903530140172288)"
  by (rule round_double_eqI [where k = "- 67" and e = "- 119" and m = 6646139978924579]) simp_all

lemma round_tiny_plus: "round_double (181539313524324870230271350214902301219 / 664613997892457936451903530140172288) = Finite (2402652809016115 / 8796093022208)"
  by (rule round_double_eqI [where k = 8 and e = "- 44" and m = 4805305618032230]) simp_all

lemma round_1: "round_double (1) = Finite (1)"
  by (rule round_double_eqI [where k = 0 and e = "- 52" and m = 4503599627370496]) simp_all

lemma round_100: "round_double (100) = Finite (100)"
  by (rule round_double_eqI [where k = 6 and e = "- 46" and m = 7036874417766400]) simp_all

lemma round_10: "round_double (10) = Finite (10)"
  by (rule round_double_eqI [where k = 3 and e = "- 49" and m = 5629499534213120]) simp_all

lemma round_1_10: "round_double (1 / 10) = Finite (3602879701896397 / 36028797018963968)"
  by (rule round_double_eqI [where k = "- 4" and e = "- 56" and m = 7205759403792794]) simp_all

lemma round_1_100: "round_double (1 / 100) = Finite (5764607523034235 / 576460752303423488)"
  by (rule round_double_eqI [where k = "- 7" and e = "- 59" and m = 5764607523034235]) simp_all

lemma round_1000: "round_double (1000) = Finite (1000)"
  by (rule round_double_eqI [where k = 9 and e = "- 43" and m = 8796093022208000]) simp_all

lemma round_621371_1000000000: "round_double (621371 / 1000000000) = Finite (5731135905912489 / 9223372036854775808)"
  by (rule round_double_eqI [where k = "- 11" and e = "- 63" and m = 5731135905912489]) simp_all

lemma round_393701_10000: "round_double (393701 / 10000) = Finite (5540848990298099 / 140737488355328)"
  by (rule round_double_eqI [where k = 5 and e = "- 47" and m = 5540848990298099]) simp_all

lemma round_82021_25000: "round_double (82021 / 25000) = Finite (7387794900731109 / 2251799813685248)"
  by (rule round_double_eqI [where k = 1 and e = "- 51" and m = 7387794900731109]) simp_all

lemma round_60: "round_double (60) = Finite (60)"
  by (rule round_double_eqI [where k = 5 and e = "- 47" and m = 8444249301319680]) simp_all

lemma round_1_60: "round_double (1 / 60) = Finite (4803839602528529 / 288230376151711744)"
  by (rule round_double_eqI [where k = "- 6" and e = "- 58" and m = 4803839602528529]) simp_all

lemma round_3600: "round_double (3600) = Finite (3600)"
  by (rule round_double_eqI [where k = 11 and e = "- 41" and m = 7916483719987200]) simp_all

lemma round_1_3600: "round_double (1 / 3600) = Finite (5124095576030431 / 18446744073709551616)"
  by (rule round_double_eqI [where k = "- 12" and e = "- 64" and m = 5124095576030431]) simp_all

lemma round_86400: "round_double (86400) = Finite (86400)"
  by (rule round_double_eqI [where k = 16 and e = "- 36" and m = 5937362789990400]) simp_all

lemma round_1_86400: "round_double (1 / 86400) = Finite (6832127434707241 / 590295810358705651712)"
  by (rule round_double_eqI [where k = "- 17" and e = "- 69" and m = 6832127434707241]) simp_all

lemma round_2592000: "round_double (2592000) = Finite (2592000)"
  by (rule round_double_eqI [where k = 21 and e = "- 31" and m = 5566277615616000]) simp_all

lemma round_1_2592000: "round_double (1 / 2592000) = Finite (7287602597021057 / 18889465931478580854784)"
  by (rule round_double_eqI [where k = "- 22" and e = "- 74" and m = 7287602597021057]) simp_all

lemma round_31536000: "round_double (31536000) = Finite (31536000)"
  by (rule round_double_eqI [where k = 24 and e = "- 28" and m = 8465380540416000]) simp_all

lemma round_1_31536000: "round_double (1 / 31536000) = Finite (2395924141486375 / 75557863725914323419136)"
  by (rule round_double_eqI [where k = "- 25" and e = "- 77" and m = 4791848282972750]) simp_all

lemma round_110231_50000000: "round_double (110231 / 50000000) = Finite (2541753807486347 / 1152921504606846976)"
  by (rule round_double_eqI [where k = "- 9" and e = "- 61" and m = 5083507614972694]) simp_all

lemma round_881849_25000000: "round_double (881849 / 25000000) = Finite (5083513379580217 / 144115188075855872)"
  by (rule round_double_eqI [where k = "- 5" and e = "- 57" and m = 5083513379580217]) simp_all

lemma round_1024: "round_double (1024) = Finite (1024)"
  by (rule round_double_eqI [where k = 10 and e = "- 42" and m = 4503599627370496]) simp_all

lemma round_1_1024: "round_double (1 / 1024) = Finite (1 / 1024)"
  by (rule round_double_eqI [where k = "- 10" and e = "- 62" and m = 4503599627370496]) simp_all

lemma round_1048576: "round_double (1048576) = Finite (1048576)"
  by (rule round_double_eqI [where k = 20 and e = "- 32" and m = 4503599627370496]) simp_all

lemma round_1_1048576: "round_double (1 / 1048576) = Finite (1 / 1048576)"
  by (rule round_double_eqI [where k = "- 20" and e = "- 72" and m = 4503599627370496]) simp_all

lemma round_1073741824: "round_double (1073741824) = Finite (1073741824)"
  by (rule round_double_eqI [where k = 30 and e = "- 22" and m = 4503599627370496]) simp_all

lemma round_1_1073741824: "round_double (1 / 1073741824) = Finite (1 / 1073741824)"
  by (rule round_double_eqI [where k = "- 30" and e = "- 82" and m = 4503599627370496]) simp_all

lemma round_1099511627776: "round_double (1099511627776) = Finite (1099511627776)"
  by (rule round_double_eqI [where k = 40 and e = "- 12" and m = 4503599627370496]) simp_all

lemma round_1_1099511627776: "round_double (1 / 1099511627776) = Finite (1 / 1099511627776)"
  by (rule round_double_eqI [where k = "- 40" and e = "- 92" and m = 4503599627370496]) simp_all

lemma round_1125899906842624: "round_double (1125899906842624) = Finite (1125899906842624)"
  by (rule round_double_eqI [where k = 50 and e = "- 2" and m = 4503599627370496]) simp_all

lemma round_1_1125899906842624: "round_double (1 / 1125899906842624) = Finite (1 / 1125899906842624)"
  by (rule round_double_eqI [where k = "- 50" and e = "- 102" and m = 4503599627370496]) simp_all

lemma round_1152921504606846976: "round_double (1152921504606846976) = Finite (1152921504606846976)"
  by (rule round_double_eqI [where k = 60 and e = 8 and m = 4503599627370496]) simp_all

lemma round_1_1152921504606846976: "round_double (1 / 1152921504606846976) = Finite (1 / 1152921504606846976)"
  by (rule round_double_eqI [where k = "- 60" and e = "- 112" and m = 4503599627370496]) simp_all

lemmas table_roundings =
  round_0 round_1 round_100 round_10 round_1_10 round_1_100
  round_milli round_1000 round_621371_1000000000 round_393701_10000 round_82021_25000 round_60
  round_1_60 round_3600 round_1_3600 round_86400 round_1_86400 round_2592000
  round_1_2592000 round_31536000 round_1_31536000 round_110231_50000000 round_881849_25000000 round_1024
  round_1_1024 round_1048576 round_1_1048576 round_1073741824 round_1_1073741824 round_1099511627776
  round_1_1099511627776 round_1125899906842624 round_1_1125899906842624 round_1152921504606846976 round_1_1152921504606846976

lemma factor_values:
  "map conversion_factor unit_table =
    [Finite (0),
     Finite (0),
     Finite (0),
     Finite (1),
     Finite (100),
     Finite (10),
     Finite (3602879701896397 / 36028797018963968),
     Finite (5764607523034235 / 576460752303423488),
     Finite (1152921504606847 / 1152921504606846976),
     Finite (1000),
     Finite (5731135905912489 / 9223372036854775808),
     Finite (5540848990298099 / 140737488355328),
     Finite (7387794900731109 / 2251799813685248),
     Finite (1),
     Finite (1000),
     Finite (4803839602528529 / 288230376151711744),
     Finite (5124095576030431 / 18446744073709551616),
     Finite (6832127434707241 / 590295810358705651712),
     Finite (7287602597021057 / 18889465931478580854784),
     Finite (2395924141486375 / 75557863725914323419136),
     Finite (1),
     Finite (100),
     Finite (10),
     Finite (3602879701896397 / 36028797018963968),
     Finite (5764607523034235 / 576460752303423488),
     Finite (1000),
     Finite (1152921504606847 / 1152921504606846976),
     Finite (2541753807486347 / 1152921504606846976),
     Finite (5083513379580217 / 144115188075855872),
     Finite (1),
     Finite (1 / 1024),
     Finite (1 / 1048576),
     Finite (1 / 1073741824),
     Finite (1 / 1099511627776),
     Finite (1 / 1125899906842624),
     Finite (1 / 1152921504606846976)]"
  by (simp add: unit_table_def row_def lit_def table_roundings)

section \<open>Properties of the table and of the switch\<close>

lemma unit_table_length: "length unit_table = 36"
  by (simp add: unit_table_def)

lemma unit_index_column: "map (unit_index \<circ> unit) unit_table = [0..<length unit_table]"
  by (simp add: unit_table_def row_def upt_rec)

lemma unit_index_less: "unit_index u < length unit_table"
  by (cases u) (simp_all add: unit_table_length)

lemma unit_table_at: "unit (table_at u) = u"
  by (cases u) (simp_all add: table_at_def unit_table_def row_def)

lemma type_table_at:
  "type (table_at u) =
     (let i = unit_index u in
      if i < 3 then TEMPERATURE else if i < 13 then LENGTH else if i < 20 then TIME
      else if i < 29 then MASS else DIGITAL)"
  by (cases u) (simp_all add: table_at_def unit_table_def row_def)

lemma convertUnit_other:
  "from \<noteq> to \<Longrightarrow> type (table_at from) \<noteq> TEMPERATURE \<Longrightarrow>
   convertUnit value from to = from_default value from to"
  by (cases "from") (simp_all add: convertUnit_def type_table_at)

lemma from_temperature:
  "type (table_at to) \<noteq> TEMPERATURE \<Longrightarrow> from_KELVIN value from to = from_default value from to"
  "type (table_at to) \<noteq> TEMPERATURE \<Longrightarrow> from_FAHRENHEIT value from to = from_default value from to"
  "type (table_at to) \<noteq> TEMPERATURE \<Longrightarrow> from_CELSIUS value from to = from_default value from to"
  by (cases to; simp add: from_KELVIN_def from_FAHRENHEIT_def from_CELSIUS_def type_table_at)+

lemma temperature_units:
  "type (table_at u) = TEMPERATURE \<longleftrightarrow> u = CELSIUS \<or> u = FAHRENHEIT \<or> u = KELVIN"
  by (cases u) (simp_all add: type_table_at)


lemma convertUnit_error_iff:
  "convertUnit value from to = Inl e \<longleftrightarrow>
     e = IncompatibleFamilies \<and> type (table_at from) \<noteq> type (table_at to)"
proof (cases "from = to")
  case True
  then show ?thesis by (simp add: convertUnit_def)
next
  case False
  show ?thesis
  proof (cases "type (table_at from) = TEMPERATURE")
    case ft: False
    with False show ?thesis by (auto simp: convertUnit_other from_default_def)
  next
    case ft: True
    show ?thesis
    proof (cases "type (table_at to) = TEMPERATURE")
      case tt: False
      from ft have "convertUnit value from to = from_default value from to"
        using False tt by (auto simp: temperature_units convertUnit_def from_temperature)
      with ft tt show ?thesis by (auto simp: from_default_def)
    next
      case tt: True
      have same: "type (table_at from) = type (table_at to)"
        using ft tt by simp
      from ft tt have "(from = CELSIUS \<or> from = FAHRENHEIT \<or> from = KELVIN) \<and>
          (to = CELSIUS \<or> to = FAHRENHEIT \<or> to = KELVIN)"
        by (simp add: temperature_units)
      with False have "\<exists>r. convertUnit value from to = Inr r"
        by (auto simp: convertUnit_def from_CELSIUS_def from_FAHRENHEIT_def from_KELVIN_def)
      with same show ?thesis by auto
    qed
  qed
qed


lemma factor_KILOMETERS: "conversion_factor (table_at KILOMETERS) = lit (1 / 1000)"
  by (simp add: table_at_def unit_table_def row_def)

lemma factor_METERS: "conversion_factor (table_at METERS) = lit 1"
  by (simp add: table_at_def unit_table_def row_def)

lemma factor_BYTES: "conversion_factor (table_at BYTES) = Finite 1"
  by (simp add: table_at_def unit_table_def row_def lit_def round_1)

lemma factor_EXABYTES:
  "conversion_factor (table_at EXABYTES) = Finite (1 / 1152921504606846976)"
  by (simp add: table_at_def unit_table_def row_def lit_def round_1 round_1152921504606846976
      round_1_1152921504606846976)

lemma unit_index_inj: "unit_index a = unit_index b \<Longrightarrow> a = b"
  by (cases a; cases b; simp)

lemma matchArgument_loop_error: "matchArgument_loop arg i = Inl e \<Longrightarrow> e = NotFound"
proof (induction arg i rule: matchArgument_loop.induct)
  case (1 arg i)
  then show ?case
    by (subst (asm) (2) matchArgument_loop.simps) (auto split: if_splits)
qed

lemmas lit_simps = lit_def round_5 round_9 round_32 round_27315

lemma convertUnit_formulas:
  "convertUnit v CELSIUS FAHRENHEIT = Inr (fadd (fdiv (fmul v (lit 9)) (lit 5)) (lit 32))"
  "convertUnit v CELSIUS KELVIN = Inr (fadd v (lit (27315 / 100)))"
  "convertUnit v FAHRENHEIT CELSIUS = Inr (fdiv (fmul (fsub v (lit 32)) (lit 5)) (lit 9))"
  "convertUnit v FAHRENHEIT KELVIN =
     Inr (fadd (fdiv (fmul (fsub v (lit 32)) (lit 5)) (lit 9)) (lit (27315 / 100)))"
  "convertUnit v KELVIN CELSIUS = Inr (fsub v (lit (27315 / 100)))"
  "convertUnit v KELVIN FAHRENHEIT =
     Inr (fadd (fdiv (fmul (fsub v (lit (27315 / 100))) (lit 9)) (lit 5)) (lit 32))"
  by (simp_all add: convertUnit_def from_CELSIUS_def from_FAHRENHEIT_def from_KELVIN_def)

lemma factor_range_cases:
  assumes "type (table_at u) \<noteq> TEMPERATURE"
  shows "case conversion_factor (table_at u) of
           Finite c \<Rightarrow> 1 / 2 ^ 60 \<le> c \<and> c \<le> 1000 | _ \<Rightarrow> False"
proof -
  have "conversion_factor (table_at u) = map conversion_factor unit_table ! unit_index u"
    by (simp add: table_at_def unit_index_less)
  with assms show ?thesis
    unfolding factor_values by (cases u) (simp_all add: type_table_at)
qed

lemma factor_range:
  assumes "type (table_at u) \<noteq> TEMPERATURE"
  shows "\<exists>c. conversion_factor (table_at u) = Finite c \<and> 1 / 2 ^ 60 \<le> c \<and> c \<le> 1000"
  using factor_range_cases [OF assms] by (cases "conversion_factor (table_at u)") simp_all

section \<open>Properties of the name lookup\<close>

lemma of_char_tolower:
  "(of_char (tolower c) :: nat) =
     (if 65 \<le> (of_char c :: nat) \<and> (of_char c :: nat) \<le> 90 then of_char c + 32 else of_char c)"
  by (simp add: tolower_def Let_def)

lemma of_char_eq_0_iff: "(of_char c :: nat) = 0 \<longleftrightarrow> c = CHR 0x00"
proof -
  have "(of_char c :: nat) = of_char (CHR 0x00) \<longleftrightarrow> c = CHR 0x00"
    by (simp only: of_char_eq_iff)
  then show ?thesis by simp
qed

lemma tolower_code_eq_0_iff: "(of_char (tolower c) :: nat) = 0 \<longleftrightarrow> c = CHR 0x00"
proof (cases "65 \<le> (of_char c :: nat) \<and> (of_char c :: nat) \<le> 90")
  case True
  then have "(of_char c :: nat) \<noteq> 0" by linarith
  then have "c \<noteq> CHR 0x00" by (simp only: of_char_eq_0_iff) simp
  with True show ?thesis by (simp add: of_char_tolower)
next
  case False
  then have "(of_char (tolower c) :: nat) = of_char c" by (simp only: of_char_tolower if_False)
  then show ?thesis by (simp only: of_char_eq_0_iff)
qed

lemma char_of_eq_code:
  "char_of (n::nat) = c \<longleftrightarrow> n mod 256 = of_char c"
  "c = char_of (n::nat) \<longleftrightarrow> n mod 256 = of_char c"
proof -
  show a: "char_of n = c \<longleftrightarrow> n mod 256 = of_char c" for n :: nat and c
    by (simp add: char_of_eq_iff take_bit_eq_mod)
  show "c = char_of n \<longleftrightarrow> n mod 256 = of_char c"
    using a [of n c] by (simp only: eq_commute [of c])
qed

lemma strcasecmp_eq_0_iff:
  "CHR 0x00 \<notin> set a \<Longrightarrow> CHR 0x00 \<notin> set b \<Longrightarrow>
   strcasecmp a b = 0 \<longleftrightarrow> map tolower a = map tolower b"
proof (induction a b rule: strcasecmp.induct)
  case 1
  then show ?case by simp
next
  case (2 b bs)
  then have "b \<noteq> CHR 0x00" by auto
  then show ?case by (simp add: tolower_code_eq_0_iff)
next
  case (3 a as)
  then have "a \<noteq> CHR 0x00" by auto
  then show ?case by (simp add: tolower_code_eq_0_iff)
next
  case (4 a as b bs)
  then show ?case by auto
qed


lemma matchArgument_loop_find:
  "matchArgument_loop arg i =
     (case find (\<lambda>r. strcasecmp arg (name r) = 0) (drop i unit_table) of
        None \<Rightarrow> Inl NotFound
      | Some r \<Rightarrow> Inr (unit r))"
proof (induction arg i rule: matchArgument_loop.induct)
  case (1 arg i)
  show ?case
  proof (cases "i < length unit_table")
    case False
    then show ?thesis by (subst matchArgument_loop.simps) simp
  next
    case True
    then have d: "drop i unit_table = unit_table ! i # drop (i + 1) unit_table"
      by (simp add: Cons_nth_drop_Suc)
    show ?thesis
    proof (cases "strcasecmp arg (name (unit_table ! i)) = 0")
      case hit: True
      with True d show ?thesis by (subst matchArgument_loop.simps) simp
    next
      case miss: False
      with True d "1.IH" show ?thesis by (subst matchArgument_loop.simps) simp
    qed
  qed
qed

lemma names_no_NUL: "\<forall>r \<in> set unit_table. CHR 0x00 \<notin> set (name r)"
  by (simp add: unit_table_def row_def)

lemma matchArgument_find:
  assumes "CHR 0x00 \<notin> set arg"
  shows "matchArgument arg =
     (case find (\<lambda>r. map tolower arg = map tolower (name r)) unit_table of
        None \<Rightarrow> Inl NotFound
      | Some r \<Rightarrow> Inr (unit r))"
proof -
  have "find (\<lambda>r. strcasecmp arg (name r) = 0) unit_table =
        find (\<lambda>r. map tolower arg = map tolower (name r)) unit_table"
  proof (rule find_cong [OF refl])
    fix r assume "r \<in> set unit_table"
    with names_no_NUL have "CHR 0x00 \<notin> set (name r)" by blast
    with assms show "(strcasecmp arg (name r) = 0) = (map tolower arg = map tolower (name r))"
      by (rule strcasecmp_eq_0_iff)
  qed
  then show ?thesis by (simp only: matchArgument_def matchArgument_loop_find drop_0)
qed

lemma lower_names:
  "map (map tolower \<circ> name) unit_table =
    [''celsius'', ''fahrenheit'', ''kelvin'', ''meters'', ''centimeters'', ''decimeters'',
     ''decameters'', ''hectometers'', ''kilometers'', ''millimeters'', ''miles'', ''inches'',
     ''feet'', ''seconds'', ''milliseconds'', ''minutes'', ''hours'', ''days'', ''months'',
     ''years'', ''grams'', ''centigrams'', ''decigrams'', ''decagrams'', ''hectograms'',
     ''milligrams'', ''kilograms'', ''pounds'', ''ounces'', ''bytes'', ''kilobytes'',
     ''megabytes'', ''gigabytes'', ''terabytes'', ''petabytes'', ''exabytes'']"
  by (simp add: unit_table_def row_def tolower_def)

lemma lower_names_distinct: "distinct (map (map tolower \<circ> name) unit_table)"
  unfolding lower_names by simp

lemma lookup_KELVIN:
  "matchArgument ''KELVIN'' = Inr KELVIN"
  "matchArgument ''kelvin'' = Inr KELVIN"
  "matchArgument ''Kelvin'' = Inr KELVIN"
  by (simp_all add: matchArgument_find unit_table_def row_def tolower_def char_of_eq_code)

lemma lookup_parsecs: "matchArgument ''parsecs'' = Inl NotFound"
  by (simp add: matchArgument_find unit_table_def row_def tolower_def char_of_eq_code)

lemma lower_name_eq_iff:
  assumes "i < length unit_table" and "j < length unit_table"
  shows "map tolower (name (unit_table ! i)) = map tolower (name (unit_table ! j)) \<longleftrightarrow> i = j"
proof -
  let ?xs = "map (map tolower \<circ> name) unit_table"
  from assms have "(?xs ! i = ?xs ! j) = (i = j)"
    by (intro nth_eq_iff_index_eq lower_names_distinct) simp_all
  with assms show ?thesis by simp
qed

lemma row_name_compare:
  assumes "i < length unit_table" and "j < length unit_table"
  shows "strcasecmp (name (unit_table ! i)) (name (unit_table ! j)) = 0 \<longleftrightarrow> i = j"
proof -
  from assms names_no_NUL have "CHR 0x00 \<notin> set (name (unit_table ! i))"
    "CHR 0x00 \<notin> set (name (unit_table ! j))"
    by (simp_all add: nth_mem)
  then have "strcasecmp (name (unit_table ! i)) (name (unit_table ! j)) = 0 \<longleftrightarrow>
      map tolower (name (unit_table ! i)) = map tolower (name (unit_table ! j))"
    by (rule strcasecmp_eq_0_iff)
  also have "\<dots> \<longleftrightarrow> i = j" using assms by (rule lower_name_eq_iff)
  finally show ?thesis .
qed

lemma lookup_row_name:
  assumes "i < length unit_table"
  shows "matchArgument (name (unit_table ! i)) = Inr (unit (unit_table ! i))"
proof -
  let ?P = "\<lambda>r. map tolower (name (unit_table ! i)) = map tolower (name r)"
  from assms names_no_NUL have nul: "CHR 0x00 \<notin> set (name (unit_table ! i))"
    by (simp add: nth_mem)
  have "\<not> ?P (unit_table ! j)" if "j < i" for j
    using that assms lower_name_eq_iff [of i j] by simp
  with assms have "find ?P unit_table = Some (unit_table ! i)"
    unfolding find_Some_iff by blast
  then show ?thesis by (simp only: matchArgument_find [OF nul] option.case)
qed

section \<open>The round trips\<close>

lemma round_trip_CELSIUS_FAHRENHEIT:
  assumes v: "\<bar>v\<bar> \<le> 10 ^ 280"
  shows "\<exists>w r. convertUnit (Finite v) CELSIUS FAHRENHEIT = Inr (Finite w) \<and>
    convertUnit (Finite w) FAHRENHEIT CELSIUS = Inr (Finite r) \<and>
    \<bar>r - v\<bar> \<le> max (\<bar>v\<bar> / 1000000000) (5 / 1000000000000)"
proof -
  define s where "s = max 1 \<bar>v\<bar>"
  have s1: "1 \<le> s" and s2: "\<bar>v\<bar> \<le> s" by (simp_all add: s_def)
  have s3: "s \<le> 10 ^ 280" using v by (simp add: s_def)
  have b0: "\<bar>v - v\<bar> \<le> 0 * s / 1000000000000000" by simp
  have m0: "\<bar>v\<bar> \<le> 1 * s" using s2 by simp
  have "\<exists>w'. round_double (v * 9) = Finite w' \<and>
      \<bar>w' - (v * 9)\<bar> \<le> 11 * s / 1000000000000000 \<and> \<bar>v * 9\<bar> \<le> 9 * s"
    by (rule mul_step [OF b0 m0 s1 s3]) simp_all
  then obtain w1 where w1: "round_double (v * 9) = Finite w1"
    and b1: "\<bar>w1 - (v * 9)\<bar> \<le> 11 * s / 1000000000000000"
    and m1: "\<bar>v * 9\<bar> \<le> 9 * s" by blast
  have c1: "fmul (Finite v) (lit (9)) = Finite w1"
    using w1 by (simp add: lit_simps fsub_def)
  have "\<exists>w'. round_double (w1 / 5) = Finite w' \<and>
      \<bar>w' - ((v * 9) / 5)\<bar> \<le> 7 * s / 1000000000000000 \<and> \<bar>(v * 9) / 5\<bar> \<le> 2 * s"
    by (rule div_step [OF b1 m1 s1 s3]) simp_all
  then obtain w2 where w2: "round_double (w1 / 5) = Finite w2"
    and b2: "\<bar>w2 - ((v * 9) / 5)\<bar> \<le> 7 * s / 1000000000000000"
    and m2: "\<bar>(v * 9) / 5\<bar> \<le> 2 * s" by blast
  have c2: "fdiv (Finite w1) (lit (5)) = Finite w2"
    using w2 by (simp add: lit_simps fsub_def)
  have "\<exists>w'. round_double (w2 + 32) = Finite w' \<and>
      \<bar>w' - (((v * 9) / 5) + 32)\<bar> \<le> 43 * s / 1000000000000000 \<and> \<bar>((v * 9) / 5) + 32\<bar> \<le> 34 * s"
    by (rule add_step [OF b2 m2 s1 s3]) simp_all
  then obtain w3 where w3: "round_double (w2 + 32) = Finite w3"
    and b3: "\<bar>w3 - (((v * 9) / 5) + 32)\<bar> \<le> 43 * s / 1000000000000000"
    and m3: "\<bar>((v * 9) / 5) + 32\<bar> \<le> 34 * s" by blast
  have c3: "fadd (Finite w2) (lit (32)) = Finite w3"
    using w3 by (simp add: lit_simps fsub_def)
  have "\<exists>w'. round_double (w3 - 32) = Finite w' \<and>
      \<bar>w' - ((((v * 9) / 5) + 32) - 32)\<bar> \<le> 111 * s / 1000000000000000 \<and> \<bar>(((v * 9) / 5) + 32) - 32\<bar> \<le> 66 * s"
    by (rule sub_step [OF b3 m3 s1 s3]) simp_all
  then obtain w4 where w4: "round_double (w3 - 32) = Finite w4"
    and b4: "\<bar>w4 - ((((v * 9) / 5) + 32) - 32)\<bar> \<le> 111 * s / 1000000000000000"
    and m4: "\<bar>(((v * 9) / 5) + 32) - 32\<bar> \<le> 66 * s" by blast
  have c4: "fsub (Finite w3) (lit (32)) = Finite w4"
    using w4 by (simp add: lit_simps fsub_def)
  have "\<exists>w'. round_double (w4 * 5) = Finite w' \<and>
      \<bar>w' - (((((v * 9) / 5) + 32) - 32) * 5)\<bar> \<le> 887 * s / 1000000000000000 \<and> \<bar>((((v * 9) / 5) + 32) - 32) * 5\<bar> \<le> 330 * s"
    by (rule mul_step [OF b4 m4 s1 s3]) simp_all
  then obtain w5 where w5: "round_double (w4 * 5) = Finite w5"
    and b5: "\<bar>w5 - (((((v * 9) / 5) + 32) - 32) * 5)\<bar> \<le> 887 * s / 1000000000000000"
    and m5: "\<bar>((((v * 9) / 5) + 32) - 32) * 5\<bar> \<le> 330 * s" by blast
  have c5: "fmul (Finite w4) (lit (5)) = Finite w5"
    using w5 by (simp add: lit_simps fsub_def)
  have "\<exists>w'. round_double (w5 / 9) = Finite w' \<and>
      \<bar>w' - ((((((v * 9) / 5) + 32) - 32) * 5) / 9)\<bar> \<le> 138 * s / 1000000000000000 \<and> \<bar>(((((v * 9) / 5) + 32) - 32) * 5) / 9\<bar> \<le> 37 * s"
    by (rule div_step [OF b5 m5 s1 s3]) simp_all
  then obtain w6 where w6: "round_double (w5 / 9) = Finite w6"
    and b6: "\<bar>w6 - ((((((v * 9) / 5) + 32) - 32) * 5) / 9)\<bar> \<le> 138 * s / 1000000000000000"
    and m6: "\<bar>(((((v * 9) / 5) + 32) - 32) * 5) / 9\<bar> \<le> 37 * s" by blast
  have c6: "fdiv (Finite w5) (lit (9)) = Finite w6"
    using w6 by (simp add: lit_simps fsub_def)
  have go: "convertUnit (Finite v) CELSIUS FAHRENHEIT = Inr (Finite w3)"
    by (simp only: convertUnit_formulas c1 c2 c3)
  have ret: "convertUnit (Finite w3) FAHRENHEIT CELSIUS = Inr (Finite w6)"
    by (simp only: convertUnit_formulas c4 c5 c6)
  have "(((((v * 9) / 5) + 32) - 32) * 5) / 9 = v" by (simp add: field_simps)
  with b6 have "\<bar>w6 - v\<bar> \<le> 138 * s / 1000000000000000" by simp
  then have "\<bar>w6 - v\<bar> \<le> max (\<bar>v\<bar> / 1000000000) (5 / 1000000000000)"
    by (rule tolerance_bound [OF _ _ s_def]) simp
  with go ret show ?thesis by blast
qed

lemma round_trip_CELSIUS_KELVIN:
  assumes v: "\<bar>v\<bar> \<le> 10 ^ 280"
  shows "\<exists>w r. convertUnit (Finite v) CELSIUS KELVIN = Inr (Finite w) \<and>
    convertUnit (Finite w) KELVIN CELSIUS = Inr (Finite r) \<and>
    \<bar>r - v\<bar> \<le> max (\<bar>v\<bar> / 1000000000) (5 / 1000000000000)"
proof -
  define s where "s = max 1 \<bar>v\<bar>"
  have s1: "1 \<le> s" and s2: "\<bar>v\<bar> \<le> s" by (simp_all add: s_def)
  have s3: "s \<le> 10 ^ 280" using v by (simp add: s_def)
  have b0: "\<bar>v - v\<bar> \<le> 0 * s / 1000000000000000" by simp
  have m0: "\<bar>v\<bar> \<le> 1 * s" using s2 by simp
  have "\<exists>w'. round_double (v + (2402652809016115 / 8796093022208)) = Finite w' \<and>
      \<bar>w' - (v + (2402652809016115 / 8796093022208))\<bar> \<le> 277 * s / 1000000000000000 \<and> \<bar>v + (2402652809016115 / 8796093022208)\<bar> \<le> 275 * s"
    by (rule add_step [OF b0 m0 s1 s3]) simp_all
  then obtain w1 where w1: "round_double (v + (2402652809016115 / 8796093022208)) = Finite w1"
    and b1: "\<bar>w1 - (v + (2402652809016115 / 8796093022208))\<bar> \<le> 277 * s / 1000000000000000"
    and m1: "\<bar>v + (2402652809016115 / 8796093022208)\<bar> \<le> 275 * s" by blast
  have c1: "fadd (Finite v) (lit (27315 / 100)) = Finite w1"
    using w1 by (simp add: lit_simps fsub_def)
  have "\<exists>w'. round_double (w1 - (2402652809016115 / 8796093022208)) = Finite w' \<and>
      \<bar>w' - ((v + (2402652809016115 / 8796093022208)) - (2402652809016115 / 8796093022208))\<bar> \<le> 828 * s / 1000000000000000 \<and> \<bar>(v + (2402652809016115 / 8796093022208)) - (2402652809016115 / 8796093022208)\<bar> \<le> 549 * s"
    by (rule sub_step [OF b1 m1 s1 s3]) simp_all
  then obtain w2 where w2: "round_double (w1 - (2402652809016115 / 8796093022208)) = Finite w2"
    and b2: "\<bar>w2 - ((v + (2402652809016115 / 8796093022208)) - (2402652809016115 / 8796093022208))\<bar> \<le> 828 * s / 1000000000000000"
    and m2: "\<bar>(v + (2402652809016115 / 8796093022208)) - (2402652809016115 / 8796093022208)\<bar> \<le> 549 * s" by blast
  have c2: "fsub (Finite w1) (lit (27315 / 100)) = Finite w2"
    using w2 by (simp add: lit_simps fsub_def)
  have go: "convertUnit (Finite v) CELSIUS KELVIN = Inr (Finite w1)"
    by (simp only: convertUnit_formulas c1)
  have ret: "convertUnit (Finite w1) KELVIN CELSIUS = Inr (Finite w2)"
    by (simp only: convertUnit_formulas c2)
  have "(v + (2402652809016115 / 8796093022208)) - (2402652809016115 / 8796093022208) = v" by (simp add: field_simps)
  with b2 have "\<bar>w2 - v\<bar> \<le> 828 * s / 1000000000000000" by simp
  then have "\<bar>w2 - v\<bar> \<le> max (\<bar>v\<bar> / 1000000000) (5 / 1000000000000)"
    by (rule tolerance_bound [OF _ _ s_def]) simp
  with go ret show ?thesis by blast
qed

lemma round_trip_FAHRENHEIT_CELSIUS:
  assumes v: "\<bar>v\<bar> \<le> 10 ^ 280"
  shows "\<exists>w r. convertUnit (Finite v) FAHRENHEIT CELSIUS = Inr (Finite w) \<and>
    convertUnit (Finite w) CELSIUS FAHRENHEIT = Inr (Finite r) \<and>
    \<bar>r - v\<bar> \<le> max (\<bar>v\<bar> / 1000000000) (5 / 1000000000000)"
proof -
  define s where "s = max 1 \<bar>v\<bar>"
  have s1: "1 \<le> s" and s2: "\<bar>v\<bar> \<le> s" by (simp_all add: s_def)
  have s3: "s \<le> 10 ^ 280" using v by (simp add: s_def)
  have b0: "\<bar>v - v\<bar> \<le> 0 * s / 1000000000000000" by simp
  have m0: "\<bar>v\<bar> \<le> 1 * s" using s2 by simp
  have "\<exists>w'. round_double (v - 32) = Finite w' \<and>
      \<bar>w' - (v - 32)\<bar> \<le> 35 * s / 1000000000000000 \<and> \<bar>v - 32\<bar> \<le> 33 * s"
    by (rule sub_step [OF b0 m0 s1 s3]) simp_all
  then obtain w1 where w1: "round_double (v - 32) = Finite w1"
    and b1: "\<bar>w1 - (v - 32)\<bar> \<le> 35 * s / 1000000000000000"
    and m1: "\<bar>v - 32\<bar> \<le> 33 * s" by blast
  have c1: "fsub (Finite v) (lit (32)) = Finite w1"
    using w1 by (simp add: lit_simps fsub_def)
  have "\<exists>w'. round_double (w1 * 5) = Finite w' \<and>
      \<bar>w' - ((v - 32) * 5)\<bar> \<le> 342 * s / 1000000000000000 \<and> \<bar>(v - 32) * 5\<bar> \<le> 165 * s"
    by (rule mul_step [OF b1 m1 s1 s3]) simp_all
  then obtain w2 where w2: "round_double (w1 * 5) = Finite w2"
    and b2: "\<bar>w2 - ((v - 32) * 5)\<bar> \<le> 342 * s / 1000000000000000"
    and m2: "\<bar>(v - 32) * 5\<bar> \<le> 165 * s" by blast
  have c2: "fmul (Finite w1) (lit (5)) = Finite w2"
    using w2 by (simp add: lit_simps fsub_def)
  have "\<exists>w'. round_double (w2 / 9) = Finite w' \<and>
      \<bar>w' - (((v - 32) * 5) / 9)\<bar> \<le> 59 * s / 1000000000000000 \<and> \<bar>((v - 32) * 5) / 9\<bar> \<le> 19 * s"
    by (rule div_step [OF b2 m2 s1 s3]) simp_all
  then obtain w3 where w3: "round_double (w2 / 9) = Finite w3"
    and b3: "\<bar>w3 - (((v - 32) * 5) / 9)\<bar> \<le> 59 * s / 1000000000000000"
    and m3: "\<bar>((v - 32) * 5) / 9\<bar> \<le> 19 * s" by blast
  have c3: "fdiv (Finite w2) (lit (9)) = Finite w3"
    using w3 by (simp add: lit_simps fsub_def)
  have "\<exists>w'. round_double (w3 * 9) = Finite w' \<and>
      \<bar>w' - ((((v - 32) * 5) / 9) * 9)\<bar> \<le> 704 * s / 1000000000000000 \<and> \<bar>(((v - 32) * 5) / 9) * 9\<bar> \<le> 171 * s"
    by (rule mul_step [OF b3 m3 s1 s3]) simp_all
  then obtain w4 where w4: "round_double (w3 * 9) = Finite w4"
    and b4: "\<bar>w4 - ((((v - 32) * 5) / 9) * 9)\<bar> \<le> 704 * s / 1000000000000000"
    and m4: "\<bar>(((v - 32) * 5) / 9) * 9\<bar> \<le> 171 * s" by blast
  have c4: "fmul (Finite w3) (lit (9)) = Finite w4"
    using w4 by (simp add: lit_simps fsub_def)
  have "\<exists>w'. round_double (w4 / 5) = Finite w' \<and>
      \<bar>w' - (((((v - 32) * 5) / 9) * 9) / 5)\<bar> \<le> 178 * s / 1000000000000000 \<and> \<bar>((((v - 32) * 5) / 9) * 9) / 5\<bar> \<le> 35 * s"
    by (rule div_step [OF b4 m4 s1 s3]) simp_all
  then obtain w5 where w5: "round_double (w4 / 5) = Finite w5"
    and b5: "\<bar>w5 - (((((v - 32) * 5) / 9) * 9) / 5)\<bar> \<le> 178 * s / 1000000000000000"
    and m5: "\<bar>((((v - 32) * 5) / 9) * 9) / 5\<bar> \<le> 35 * s" by blast
  have c5: "fdiv (Finite w4) (lit (5)) = Finite w5"
    using w5 by (simp add: lit_simps fsub_def)
  have "\<exists>w'. round_double (w5 + 32) = Finite w' \<and>
      \<bar>w' - ((((((v - 32) * 5) / 9) * 9) / 5) + 32)\<bar> \<le> 247 * s / 1000000000000000 \<and> \<bar>(((((v - 32) * 5) / 9) * 9) / 5) + 32\<bar> \<le> 67 * s"
    by (rule add_step [OF b5 m5 s1 s3]) simp_all
  then obtain w6 where w6: "round_double (w5 + 32) = Finite w6"
    and b6: "\<bar>w6 - ((((((v - 32) * 5) / 9) * 9) / 5) + 32)\<bar> \<le> 247 * s / 1000000000000000"
    and m6: "\<bar>(((((v - 32) * 5) / 9) * 9) / 5) + 32\<bar> \<le> 67 * s" by blast
  have c6: "fadd (Finite w5) (lit (32)) = Finite w6"
    using w6 by (simp add: lit_simps fsub_def)
  have go: "convertUnit (Finite v) FAHRENHEIT CELSIUS = Inr (Finite w3)"
    by (simp only: convertUnit_formulas c1 c2 c3)
  have ret: "convertUnit (Finite w3) CELSIUS FAHRENHEIT = Inr (Finite w6)"
    by (simp only: convertUnit_formulas c4 c5 c6)
  have "(((((v - 32) * 5) / 9) * 9) / 5) + 32 = v" by (simp add: field_simps)
  with b6 have "\<bar>w6 - v\<bar> \<le> 247 * s / 1000000000000000" by simp
  then have "\<bar>w6 - v\<bar> \<le> max (\<bar>v\<bar> / 1000000000) (5 / 1000000000000)"
    by (rule tolerance_bound [OF _ _ s_def]) simp
  with go ret show ?thesis by blast
qed

lemma round_trip_FAHRENHEIT_KELVIN:
  assumes v: "\<bar>v\<bar> \<le> 10 ^ 280"
  shows "\<exists>w r. convertUnit (Finite v) FAHRENHEIT KELVIN = Inr (Finite w) \<and>
    convertUnit (Finite w) KELVIN FAHRENHEIT = Inr (Finite r) \<and>
    \<bar>r - v\<bar> \<le> max (\<bar>v\<bar> / 1000000000) (5 / 1000000000000)"
proof -
  define s where "s = max 1 \<bar>v\<bar>"
  have s1: "1 \<le> s" and s2: "\<bar>v\<bar> \<le> s" by (simp_all add: s_def)
  have s3: "s \<le> 10 ^ 280" using v by (simp add: s_def)
  have b0: "\<bar>v - v\<bar> \<le> 0 * s / 1000000000000000" by simp
  have m0: "\<bar>v\<bar> \<le> 1 * s" using s2 by simp
  have "\<exists>w'. round_double (v - 32) = Finite w' \<and>
      \<bar>w' - (v - 32)\<bar> \<le> 35 * s / 1000000000000000 \<and> \<bar>v - 32\<bar> \<le> 33 * s"
    by (rule sub_step [OF b0 m0 s1 s3]) simp_all
  then obtain w1 where w1: "round_double (v - 32) = Finite w1"
    and b1: "\<bar>w1 - (v - 32)\<bar> \<le> 35 * s / 1000000000000000"
    and m1: "\<bar>v - 32\<bar> \<le> 33 * s" by blast
  have c1: "fsub (Finite v) (lit (32)) = Finite w1"
    using w1 by (simp add: lit_simps fsub_def)
  have "\<exists>w'. round_double (w1 * 5) = Finite w' \<and>
      \<bar>w' - ((v - 32) * 5)\<bar> \<le> 342 * s / 1000000000000000 \<and> \<bar>(v - 32) * 5\<bar> \<le> 165 * s"
    by (rule mul_step [OF b1 m1 s1 s3]) simp_all
  then obtain w2 where w2: "round_double (w1 * 5) = Finite w2"
    and b2: "\<bar>w2 - ((v - 32) * 5)\<bar> \<le> 342 * s / 1000000000000000"
    and m2: "\<bar>(v - 32) * 5\<bar> \<le> 165 * s" by blast
  have c2: "fmul (Finite w1) (lit (5)) = Finite w2"
    using w2 by (simp add: lit_simps fsub_def)
  have "\<exists>w'. round_double (w2 / 9) = Finite w' \<and>
      \<bar>w' - (((v - 32) * 5) / 9)\<bar> \<le> 59 * s / 1000000000000000 \<and> \<bar>((v - 32) * 5) / 9\<bar> \<le> 19 * s"
    by (rule div_step [OF b2 m2 s1 s3]) simp_all
  then obtain w3 where w3: "round_double (w2 / 9) = Finite w3"
    and b3: "\<bar>w3 - (((v - 32) * 5) / 9)\<bar> \<le> 59 * s / 1000000000000000"
    and m3: "\<bar>((v - 32) * 5) / 9\<bar> \<le> 19 * s" by blast
  have c3: "fdiv (Finite w2) (lit (9)) = Finite w3"
    using w3 by (simp add: lit_simps fsub_def)
  have "\<exists>w'. round_double (w3 + (2402652809016115 / 8796093022208)) = Finite w' \<and>
      \<bar>w' - ((((v - 32) * 5) / 9) + (2402652809016115 / 8796093022208))\<bar> \<le> 354 * s / 1000000000000000 \<and> \<bar>(((v - 32) * 5) / 9) + (2402652809016115 / 8796093022208)\<bar> \<le> 293 * s"
    by (rule add_step [OF b3 m3 s1 s3]) simp_all
  then obtain w4 where w4: "round_double (w3 + (2402652809016115 / 8796093022208)) = Finite w4"
    and b4: "\<bar>w4 - ((((v - 32) * 5) / 9) + (2402652809016115 / 8796093022208))\<bar> \<le> 354 * s / 1000000000000000"
    and m4: "\<bar>(((v - 32) * 5) / 9) + (2402652809016115 / 8796093022208)\<bar> \<le> 293 * s" by blast
  have c4: "fadd (Finite w3) (lit (27315 / 100)) = Finite w4"
    using w4 by (simp add: lit_simps fsub_def)
  have "\<exists>w'. round_double (w4 - (2402652809016115 / 8796093022208)) = Finite w' \<and>
      \<bar>w' - (((((v - 32) * 5) / 9) + (2402652809016115 / 8796093022208)) - (2402652809016115 / 8796093022208))\<bar> \<le> 923 * s / 1000000000000000 \<and> \<bar>((((v - 32) * 5) / 9) + (2402652809016115 / 8796093022208)) - (2402652809016115 / 8796093022208)\<bar> \<le> 567 * s"
    by (rule sub_step [OF b4 m4 s1 s3]) simp_all
  then obtain w5 where w5: "round_double (w4 - (2402652809016115 / 8796093022208)) = Finite w5"
    and b5: "\<bar>w5 - (((((v - 32) * 5) / 9) + (2402652809016115 / 8796093022208)) - (2402652809016115 / 8796093022208))\<bar> \<le> 923 * s / 1000000000000000"
    and m5: "\<bar>((((v - 32) * 5) / 9) + (2402652809016115 / 8796093022208)) - (2402652809016115 / 8796093022208)\<bar> \<le> 567 * s" by blast
  have c5: "fsub (Finite w4) (lit (27315 / 100)) = Finite w5"
    using w5 by (simp add: lit_simps fsub_def)
  have "\<exists>w'. round_double (w5 * 9) = Finite w' \<and>
      \<bar>w' - ((((((v - 32) * 5) / 9) + (2402652809016115 / 8796093022208)) - (2402652809016115 / 8796093022208)) * 9)\<bar> \<le> 13412 * s / 1000000000000000 \<and> \<bar>(((((v - 32) * 5) / 9) + (2402652809016115 / 8796093022208)) - (2402652809016115 / 8796093022208)) * 9\<bar> \<le> 5103 * s"
    by (rule mul_step [OF b5 m5 s1 s3]) simp_all
  then obtain w6 where w6: "round_double (w5 * 9) = Finite w6"
    and b6: "\<bar>w6 - ((((((v - 32) * 5) / 9) + (2402652809016115 / 8796093022208)) - (2402652809016115 / 8796093022208)) * 9)\<bar> \<le> 13412 * s / 1000000000000000"
    and m6: "\<bar>(((((v - 32) * 5) / 9) + (2402652809016115 / 8796093022208)) - (2402652809016115 / 8796093022208)) * 9\<bar> \<le> 5103 * s" by blast
  have c6: "fmul (Finite w5) (lit (9)) = Finite w6"
    using w6 by (simp add: lit_simps fsub_def)
  have "\<exists>w'. round_double (w6 / 5) = Finite w' \<and>
      \<bar>w' - (((((((v - 32) * 5) / 9) + (2402652809016115 / 8796093022208)) - (2402652809016115 / 8796093022208)) * 9) / 5)\<bar> \<le> 3706 * s / 1000000000000000 \<and> \<bar>((((((v - 32) * 5) / 9) + (2402652809016115 / 8796093022208)) - (2402652809016115 / 8796093022208)) * 9) / 5\<bar> \<le> 1021 * s"
    by (rule div_step [OF b6 m6 s1 s3]) simp_all
  then obtain w7 where w7: "round_double (w6 / 5) = Finite w7"
    and b7: "\<bar>w7 - (((((((v - 32) * 5) / 9) + (2402652809016115 / 8796093022208)) - (2402652809016115 / 8796093022208)) * 9) / 5)\<bar> \<le> 3706 * s / 1000000000000000"
    and m7: "\<bar>((((((v - 32) * 5) / 9) + (2402652809016115 / 8796093022208)) - (2402652809016115 / 8796093022208)) * 9) / 5\<bar> \<le> 1021 * s" by blast
  have c7: "fdiv (Finite w6) (lit (5)) = Finite w7"
    using w7 by (simp add: lit_simps fsub_def)
  have "\<exists>w'. round_double (w7 + 32) = Finite w' \<and>
      \<bar>w' - ((((((((v - 32) * 5) / 9) + (2402652809016115 / 8796093022208)) - (2402652809016115 / 8796093022208)) * 9) / 5) + 32)\<bar> \<le> 4761 * s / 1000000000000000 \<and> \<bar>(((((((v - 32) * 5) / 9) + (2402652809016115 / 8796093022208)) - (2402652809016115 / 8796093022208)) * 9) / 5) + 32\<bar> \<le> 1053 * s"
    by (rule add_step [OF b7 m7 s1 s3]) simp_all
  then obtain w8 where w8: "round_double (w7 + 32) = Finite w8"
    and b8: "\<bar>w8 - ((((((((v - 32) * 5) / 9) + (2402652809016115 / 8796093022208)) - (2402652809016115 / 8796093022208)) * 9) / 5) + 32)\<bar> \<le> 4761 * s / 1000000000000000"
    and m8: "\<bar>(((((((v - 32) * 5) / 9) + (2402652809016115 / 8796093022208)) - (2402652809016115 / 8796093022208)) * 9) / 5) + 32\<bar> \<le> 1053 * s" by blast
  have c8: "fadd (Finite w7) (lit (32)) = Finite w8"
    using w8 by (simp add: lit_simps fsub_def)
  have go: "convertUnit (Finite v) FAHRENHEIT KELVIN = Inr (Finite w4)"
    by (simp only: convertUnit_formulas c1 c2 c3 c4)
  have ret: "convertUnit (Finite w4) KELVIN FAHRENHEIT = Inr (Finite w8)"
    by (simp only: convertUnit_formulas c5 c6 c7 c8)
  have "(((((((v - 32) * 5) / 9) + (2402652809016115 / 8796093022208)) - (2402652809016115 / 8796093022208)) * 9) / 5) + 32 = v" by (simp add: field_simps)
  with b8 have "\<bar>w8 - v\<bar> \<le> 4761 * s / 1000000000000000" by simp
  then have "\<bar>w8 - v\<bar> \<le> max (\<bar>v\<bar> / 1000000000) (5 / 1000000000000)"
    by (rule tolerance_bound [OF _ _ s_def]) simp
  with go ret show ?thesis by blast
qed

lemma round_trip_KELVIN_CELSIUS:
  assumes v: "\<bar>v\<bar> \<le> 10 ^ 280"
  shows "\<exists>w r. convertUnit (Finite v) KELVIN CELSIUS = Inr (Finite w) \<and>
    convertUnit (Finite w) CELSIUS KELVIN = Inr (Finite r) \<and>
    \<bar>r - v\<bar> \<le> max (\<bar>v\<bar> / 1000000000) (5 / 1000000000000)"
proof -
  define s where "s = max 1 \<bar>v\<bar>"
  have s1: "1 \<le> s" and s2: "\<bar>v\<bar> \<le> s" by (simp_all add: s_def)
  have s3: "s \<le> 10 ^ 280" using v by (simp add: s_def)
  have b0: "\<bar>v - v\<bar> \<le> 0 * s / 1000000000000000" by simp
  have m0: "\<bar>v\<bar> \<le> 1 * s" using s2 by simp
  have "\<exists>w'. round_double (v - (2402652809016115 / 8796093022208)) = Finite w' \<and>
      \<bar>w' - (v - (2402652809016115 / 8796093022208))\<bar> \<le> 277 * s / 1000000000000000 \<and> \<bar>v - (2402652809016115 / 8796093022208)\<bar> \<le> 275 * s"
    by (rule sub_step [OF b0 m0 s1 s3]) simp_all
  then obtain w1 where w1: "round_double (v - (2402652809016115 / 8796093022208)) = Finite w1"
    and b1: "\<bar>w1 - (v - (2402652809016115 / 8796093022208))\<bar> \<le> 277 * s / 1000000000000000"
    and m1: "\<bar>v - (2402652809016115 / 8796093022208)\<bar> \<le> 275 * s" by blast
  have c1: "fsub (Finite v) (lit (27315 / 100)) = Finite w1"
    using w1 by (simp add: lit_simps fsub_def)
  have "\<exists>w'. round_double (w1 + (2402652809016115 / 8796093022208)) = Finite w' \<and>
      \<bar>w' - ((v - (2402652809016115 / 8796093022208)) + (2402652809016115 / 8796093022208))\<bar> \<le> 828 * s / 1000000000000000 \<and> \<bar>(v - (2402652809016115 / 8796093022208)) + (2402652809016115 / 8796093022208)\<bar> \<le> 549 * s"
    by (rule add_step [OF b1 m1 s1 s3]) simp_all
  then obtain w2 where w2: "round_double (w1 + (2402652809016115 / 8796093022208)) = Finite w2"
    and b2: "\<bar>w2 - ((v - (2402652809016115 / 8796093022208)) + (2402652809016115 / 8796093022208))\<bar> \<le> 828 * s / 1000000000000000"
    and m2: "\<bar>(v - (2402652809016115 / 8796093022208)) + (2402652809016115 / 8796093022208)\<bar> \<le> 549 * s" by blast
  have c2: "fadd (Finite w1) (lit (27315 / 100)) = Finite w2"
    using w2 by (simp add: lit_simps fsub_def)
  have go: "convertUnit (Finite v) KELVIN CELSIUS = Inr (Finite w1)"
    by (simp only: convertUnit_formulas c1)
  have ret: "convertUnit (Finite w1) CELSIUS KELVIN = Inr (Finite w2)"
    by (simp only: convertUnit_formulas c2)
  have "(v - (2402652809016115 / 8796093022208)) + (2402652809016115 / 8796093022208) = v" by (simp add: field_simps)
  with b2 have "\<bar>w2 - v\<bar> \<le> 828 * s / 1000000000000000" by simp
  then have "\<bar>w2 - v\<bar> \<le> max (\<bar>v\<bar> / 1000000000) (5 / 1000000000000)"
    by (rule tolerance_bound [OF _ _ s_def]) simp
  with go ret show ?thesis by blast
qed

lemma round_trip_KELVIN_FAHRENHEIT:
  assumes v: "\<bar>v\<bar> \<le> 10 ^ 280"
  shows "\<exists>w r. convertUnit (Finite v) KELVIN FAHRENHEIT = Inr (Finite w) \<and>
    convertUnit (Finite w) FAHRENHEIT KELVIN = Inr (Finite r) \<and>
    \<bar>r - v\<bar> \<le> max (\<bar>v\<bar> / 1000000000) (5 / 1000000000000)"
proof -
  define s where "s = max 1 \<bar>v\<bar>"
  have s1: "1 \<le> s" and s2: "\<bar>v\<bar> \<le> s" by (simp_all add: s_def)
  have s3: "s \<le> 10 ^ 280" using v by (simp add: s_def)
  have b0: "\<bar>v - v\<bar> \<le> 0 * s / 1000000000000000" by simp
  have m0: "\<bar>v\<bar> \<le> 1 * s" using s2 by simp
  have "\<exists>w'. round_double (v - (2402652809016115 / 8796093022208)) = Finite w' \<and>
      \<bar>w' - (v - (2402652809016115 / 8796093022208))\<bar> \<le> 277 * s / 1000000000000000 \<and> \<bar>v - (2402652809016115 / 8796093022208)\<bar> \<le> 275 * s"
    by (rule sub_step [OF b0 m0 s1 s3]) simp_all
  then obtain w1 where w1: "round_double (v - (2402652809016115 / 8796093022208)) = Finite w1"
    and b1: "\<bar>w1 - (v - (2402652809016115 / 8796093022208))\<bar> \<le> 277 * s / 1000000000000000"
    and m1: "\<bar>v - (2402652809016115 / 8796093022208)\<bar> \<le> 275 * s" by blast
  have c1: "fsub (Finite v) (lit (27315 / 100)) = Finite w1"
    using w1 by (simp add: lit_simps fsub_def)
  have "\<exists>w'. round_double (w1 * 9) = Finite w' \<and>
      \<bar>w' - ((v - (2402652809016115 / 8796093022208)) * 9)\<bar> \<le> 4970 * s / 1000000000000000 \<and> \<bar>(v - (2402652809016115 / 8796093022208)) * 9\<bar> \<le> 2475 * s"
    by (rule mul_step [OF b1 m1 s1 s3]) simp_all
  then obtain w2 where w2: "round_double (w1 * 9) = Finite w2"
    and b2: "\<bar>w2 - ((v - (2402652809016115 / 8796093022208)) * 9)\<bar> \<le> 4970 * s / 1000000000000000"
    and m2: "\<bar>(v - (2402652809016115 / 8796093022208)) * 9\<bar> \<le> 2475 * s" by blast
  have c2: "fmul (Finite w1) (lit (9)) = Finite w2"
    using w2 by (simp add: lit_simps fsub_def)
  have "\<exists>w'. round_double (w2 / 5) = Finite w' \<and>
      \<bar>w' - (((v - (2402652809016115 / 8796093022208)) * 9) / 5)\<bar> \<le> 1491 * s / 1000000000000000 \<and> \<bar>((v - (2402652809016115 / 8796093022208)) * 9) / 5\<bar> \<le> 495 * s"
    by (rule div_step [OF b2 m2 s1 s3]) simp_all
  then obtain w3 where w3: "round_double (w2 / 5) = Finite w3"
    and b3: "\<bar>w3 - (((v - (2402652809016115 / 8796093022208)) * 9) / 5)\<bar> \<le> 1491 * s / 1000000000000000"
    and m3: "\<bar>((v - (2402652809016115 / 8796093022208)) * 9) / 5\<bar> \<le> 495 * s" by blast
  have c3: "fdiv (Finite w2) (lit (5)) = Finite w3"
    using w3 by (simp add: lit_simps fsub_def)
  have "\<exists>w'. round_double (w3 + 32) = Finite w' \<and>
      \<bar>w' - ((((v - (2402652809016115 / 8796093022208)) * 9) / 5) + 32)\<bar> \<le> 2020 * s / 1000000000000000 \<and> \<bar>(((v - (2402652809016115 / 8796093022208)) * 9) / 5) + 32\<bar> \<le> 527 * s"
    by (rule add_step [OF b3 m3 s1 s3]) simp_all
  then obtain w4 where w4: "round_double (w3 + 32) = Finite w4"
    and b4: "\<bar>w4 - ((((v - (2402652809016115 / 8796093022208)) * 9) / 5) + 32)\<bar> \<le> 2020 * s / 1000000000000000"
    and m4: "\<bar>(((v - (2402652809016115 / 8796093022208)) * 9) / 5) + 32\<bar> \<le> 527 * s" by blast
  have c4: "fadd (Finite w3) (lit (32)) = Finite w4"
    using w4 by (simp add: lit_simps fsub_def)
  have "\<exists>w'. round_double (w4 - 32) = Finite w' \<and>
      \<bar>w' - (((((v - (2402652809016115 / 8796093022208)) * 9) / 5) + 32) - 32)\<bar> \<le> 2581 * s / 1000000000000000 \<and> \<bar>((((v - (2402652809016115 / 8796093022208)) * 9) / 5) + 32) - 32\<bar> \<le> 559 * s"
    by (rule sub_step [OF b4 m4 s1 s3]) simp_all
  then obtain w5 where w5: "round_double (w4 - 32) = Finite w5"
    and b5: "\<bar>w5 - (((((v - (2402652809016115 / 8796093022208)) * 9) / 5) + 32) - 32)\<bar> \<le> 2581 * s / 1000000000000000"
    and m5: "\<bar>((((v - (2402652809016115 / 8796093022208)) * 9) / 5) + 32) - 32\<bar> \<le> 559 * s" by blast
  have c5: "fsub (Finite w4) (lit (32)) = Finite w5"
    using w5 by (simp add: lit_simps fsub_def)
  have "\<exists>w'. round_double (w5 * 5) = Finite w' \<and>
      \<bar>w' - ((((((v - (2402652809016115 / 8796093022208)) * 9) / 5) + 32) - 32) * 5)\<bar> \<le> 15702 * s / 1000000000000000 \<and> \<bar>(((((v - (2402652809016115 / 8796093022208)) * 9) / 5) + 32) - 32) * 5\<bar> \<le> 2795 * s"
    by (rule mul_step [OF b5 m5 s1 s3]) simp_all
  then obtain w6 where w6: "round_double (w5 * 5) = Finite w6"
    and b6: "\<bar>w6 - ((((((v - (2402652809016115 / 8796093022208)) * 9) / 5) + 32) - 32) * 5)\<bar> \<le> 15702 * s / 1000000000000000"
    and m6: "\<bar>(((((v - (2402652809016115 / 8796093022208)) * 9) / 5) + 32) - 32) * 5\<bar> \<le> 2795 * s" by blast
  have c6: "fmul (Finite w5) (lit (5)) = Finite w6"
    using w6 by (simp add: lit_simps fsub_def)
  have "\<exists>w'. round_double (w6 / 9) = Finite w' \<and>
      \<bar>w' - (((((((v - (2402652809016115 / 8796093022208)) * 9) / 5) + 32) - 32) * 5) / 9)\<bar> \<le> 2058 * s / 1000000000000000 \<and> \<bar>((((((v - (2402652809016115 / 8796093022208)) * 9) / 5) + 32) - 32) * 5) / 9\<bar> \<le> 311 * s"
    by (rule div_step [OF b6 m6 s1 s3]) simp_all
  then obtain w7 where w7: "round_double (w6 / 9) = Finite w7"
    and b7: "\<bar>w7 - (((((((v - (2402652809016115 / 8796093022208)) * 9) / 5) + 32) - 32) * 5) / 9)\<bar> \<le> 2058 * s / 1000000000000000"
    and m7: "\<bar>((((((v - (2402652809016115 / 8796093022208)) * 9) / 5) + 32) - 32) * 5) / 9\<bar> \<le> 311 * s" by blast
  have c7: "fdiv (Finite w6) (lit (9)) = Finite w7"
    using w7 by (simp add: lit_simps fsub_def)
  have "\<exists>w'. round_double (w7 + (2402652809016115 / 8796093022208)) = Finite w' \<and>
      \<bar>w' - ((((((((v - (2402652809016115 / 8796093022208)) * 9) / 5) + 32) - 32) * 5) / 9) + (2402652809016115 / 8796093022208))\<bar> \<le> 2645 * s / 1000000000000000 \<and> \<bar>(((((((v - (2402652809016115 / 8796093022208)) * 9) / 5) + 32) - 32) * 5) / 9) + (2402652809016115 / 8796093022208)\<bar> \<le> 585 * s"
    by (rule add_step [OF b7 m7 s1 s3]) simp_all
  then obtain w8 where w8: "round_double (w7 + (2402652809016115 / 8796093022208)) = Finite w8"
    and b8: "\<bar>w8 - ((((((((v - (2402652809016115 / 8796093022208)) * 9) / 5) + 32) - 32) * 5) / 9) + (2402652809016115 / 8796093022208))\<bar> \<le> 2645 * s / 1000000000000000"
    and m8: "\<bar>(((((((v - (2402652809016115 / 8796093022208)) * 9) / 5) + 32) - 32) * 5) / 9) + (2402652809016115 / 8796093022208)\<bar> \<le> 585 * s" by blast
  have c8: "fadd (Finite w7) (lit (27315 / 100)) = Finite w8"
    using w8 by (simp add: lit_simps fsub_def)
  have go: "convertUnit (Finite v) KELVIN FAHRENHEIT = Inr (Finite w4)"
    by (simp only: convertUnit_formulas c1 c2 c3 c4)
  have ret: "convertUnit (Finite w4) FAHRENHEIT KELVIN = Inr (Finite w8)"
    by (simp only: convertUnit_formulas c5 c6 c7 c8)
  have "(((((((v - (2402652809016115 / 8796093022208)) * 9) / 5) + 32) - 32) * 5) / 9) + (2402652809016115 / 8796093022208) = v" by (simp add: field_simps)
  with b8 have "\<bar>w8 - v\<bar> \<le> 2645 * s / 1000000000000000" by simp
  then have "\<bar>w8 - v\<bar> \<le> max (\<bar>v\<bar> / 1000000000) (5 / 1000000000000)"
    by (rule tolerance_bound [OF _ _ s_def]) simp
  with go ret show ?thesis by blast
qed

lemma convertUnit_ratio_round_trip:
  assumes ab: "type (table_at a) = type (table_at b)" and nt: "type (table_at a) \<noteq> TEMPERATURE"
    and v: "v = 0 \<or> 1 / 10 ^ 280 \<le> \<bar>v\<bar> \<and> \<bar>v\<bar> \<le> 10 ^ 280"
  shows "\<exists>w r. convertUnit (Finite v) a b = Inr (Finite w) \<and>
    convertUnit (Finite w) b a = Inr (Finite r) \<and> \<bar>r - v\<bar> \<le> \<bar>v\<bar> / 1000000000"
proof (cases "a = b")
  case True
  then have "convertUnit (Finite v) a b = Inr (Finite v)" "convertUnit (Finite v) b a = Inr (Finite v)"
    by (simp_all add: convertUnit_def)
  then show ?thesis by force
next
  case False
  from nt ab have ntb: "type (table_at b) \<noteq> TEMPERATURE" by simp
  from factor_range [OF nt] obtain ca where ca: "conversion_factor (table_at a) = Finite ca"
    and ca1: "1 / 2 ^ 60 \<le> ca" and ca2: "ca \<le> 1000" by blast
  from factor_range [OF ntb] obtain cb where cb: "conversion_factor (table_at b) = Finite cb"
    and cb1: "1 / 2 ^ 60 \<le> cb" and cb2: "cb \<le> 1000" by blast
  have nz: "ca \<noteq> 0" "cb \<noteq> 0"
    using ca1 cb1 less_le_trans [of 0 "1 / 2 ^ 60" ca] less_le_trans [of 0 "1 / 2 ^ 60" cb]
    by simp_all
  have go: "convertUnit x a b = Inr (fmul x (round_double (ca / cb)))" for x
    using False nt ab nz by (simp add: convertUnit_other from_default_def ca cb)
  have ret: "convertUnit x b a = Inr (fmul x (round_double (cb / ca)))" for x
    using False ntb ab nz by (simp add: convertUnit_other from_default_def ca cb)
  from v show ?thesis
  proof
    assume "v = 0"
    from ratio_finite [OF ca1 ca2 cb1 cb2] obtain f where f: "round_double (ca / cb) = Finite f" ..
    from ratio_finite [OF cb1 cb2 ca1 ca2] obtain g where g: "round_double (cb / ca) = Finite g" ..
    have "convertUnit (Finite v) a b = Inr (Finite 0)"
      by (simp add: go f \<open>v = 0\<close> round_0)
    moreover have "convertUnit (Finite 0) b a = Inr (Finite 0)"
      by (simp add: ret g round_0)
    ultimately show ?thesis using \<open>v = 0\<close> by force
  next
    assume "1 / 10 ^ 280 \<le> \<bar>v\<bar> \<and> \<bar>v\<bar> \<le> 10 ^ 280"
    then have v1: "1 / 10 ^ 280 \<le> \<bar>v\<bar>" and v2: "\<bar>v\<bar> \<le> 10 ^ 280" by simp_all
    from ratio_round_trip [OF ca1 ca2 cb1 cb2 v1 v2] obtain f g w r
      where f: "round_double (ca / cb) = Finite f" and g: "round_double (cb / ca) = Finite g"
        and w: "round_double (v * f) = Finite w" and r: "round_double (w * g) = Finite r"
        and e: "\<bar>r - v\<bar> \<le> \<bar>v\<bar> / 1000000000" by blast
    have "convertUnit (Finite v) a b = Inr (Finite w)" by (simp add: go f w)
    moreover have "convertUnit (Finite w) b a = Inr (Finite r)" by (simp add: ret g r)
    ultimately show ?thesis using e by blast
  qed
qed

lemma convertUnit_temperature_round_trip:
  assumes ta: "type (table_at a) = TEMPERATURE" and tb: "type (table_at b) = TEMPERATURE"
    and v: "\<bar>v\<bar> \<le> 10 ^ 280"
  shows "\<exists>w r. convertUnit (Finite v) a b = Inr (Finite w) \<and>
    convertUnit (Finite w) b a = Inr (Finite r) \<and> \<bar>r - v\<bar> \<le> max (\<bar>v\<bar> / 1000000000) (5 / 1000000000000)"
proof (cases "a = b")
  case True
  then have "convertUnit (Finite v) a b = Inr (Finite v)" "convertUnit (Finite v) b a = Inr (Finite v)"
    by (simp_all add: convertUnit_def)
  moreover have "\<bar>v - v\<bar> \<le> max (\<bar>v\<bar> / 1000000000) (5 / 1000000000000)" by simp
  ultimately show ?thesis by blast
next
  case False
  from ta tb have "(a = CELSIUS \<or> a = FAHRENHEIT \<or> a = KELVIN) \<and>
      (b = CELSIUS \<or> b = FAHRENHEIT \<or> b = KELVIN)"
    by (simp add: temperature_units)
  with False consider "a = CELSIUS" "b = FAHRENHEIT" | "a = CELSIUS" "b = KELVIN"
    | "a = FAHRENHEIT" "b = CELSIUS" | "a = FAHRENHEIT" "b = KELVIN"
    | "a = KELVIN" "b = CELSIUS" | "a = KELVIN" "b = FAHRENHEIT" by blast
  then show ?thesis
  proof cases
    case 1 then show ?thesis using round_trip_CELSIUS_FAHRENHEIT [OF v] by simp
  next
    case 2 then show ?thesis using round_trip_CELSIUS_KELVIN [OF v] by simp
  next
    case 3 then show ?thesis using round_trip_FAHRENHEIT_CELSIUS [OF v] by simp
  next
    case 4 then show ?thesis using round_trip_FAHRENHEIT_KELVIN [OF v] by simp
  next
    case 5 then show ?thesis using round_trip_KELVIN_CELSIUS [OF v] by simp
  next
    case 6 then show ?thesis using round_trip_KELVIN_FAHRENHEIT [OF v] by simp
  qed
qed

lemma convertUnit_same_family:
  assumes "type (table_at a) = type (table_at b)"
  shows "\<exists>w. convertUnit x a b = Inr w"
proof (cases "convertUnit x a b")
  case (Inl e)
  with assms show ?thesis by (simp add: convertUnit_error_iff)
next
  case (Inr w)
  then show ?thesis by blast
qed

text \<open>
  Outside the ranges of these lemmas the round trip is lost. \<open>2^1000\<close> bytes in exabytes
  overflows to infinity, since the quotient of the two factors is \<open>2^60\<close>; and the
  smallest positive double, \<open>2^-1074\<close> exabytes, becomes \<open>0\<close> bytes and stays \<open>0\<close>.
\<close>

lemma round_trip_overflows: "round_trip (Finite (2 ^ 1000)) BYTES EXABYTES = Inr PInf"
proof -
  have big: "round_double (2 ^ 1000 * 1152921504606846976) = PInf"
    by (rule round_double_overflowI [where k = 1060 and e = 1008 and m = 4503599627370496])
      simp_all
  have "convertUnit (Finite (2 ^ 1000)) BYTES EXABYTES = Inr PInf"
    using big
    by (simp add: convertUnit_other from_default_def type_table_at factor_BYTES factor_EXABYTES
        round_1152921504606846976)
  moreover have "convertUnit PInf EXABYTES BYTES = Inr PInf"
    by (simp add: convertUnit_other from_default_def type_table_at factor_BYTES factor_EXABYTES
        round_1_1152921504606846976 signed_inf_def)
  ultimately show ?thesis by (simp add: round_trip_def)
qed

lemma round_trip_underflows:
  "round_trip (Finite (1 / 2 ^ 1074)) EXABYTES BYTES = Inr (Finite 0)"
proof -
  have tiny: "round_double (1 / 2 ^ 1074 * (1 / 1152921504606846976)) = Finite 0"
    by (rule round_double_eqI [where k = "- 1134" and e = "- 1074" and m = 0]) simp_all
  have "convertUnit (Finite (1 / 2 ^ 1074)) EXABYTES BYTES = Inr (Finite 0)"
    using tiny
    by (simp add: convertUnit_other from_default_def type_table_at factor_BYTES factor_EXABYTES
        round_1_1152921504606846976)
  moreover have "convertUnit (Finite 0) BYTES EXABYTES = Inr (Finite 0)"
    by (simp add: convertUnit_other from_default_def type_table_at factor_BYTES factor_EXABYTES
        round_1152921504606846976 round_0)
  ultimately show ?thesis by (simp add: round_trip_def)
qed

text \<open>
  The relative tolerance \<open>10^-9\<close> is already missed at everyday magnitudes: \<open>0.000001\<close>
  degrees Celsius comes back from Kelvin as \<open>9.99999997475 * 10^-7\<close>, a relative error of
  \<open>2.5 * 10^-9\<close>.
\<close>

lemma round_trip_micro_degree:
  "lit (1 / 1000000) = Finite (4722366482869645 / 4722366482869645213696) \<and>
   round_trip (Finite (4722366482869645 / 4722366482869645213696)) CELSIUS KELVIN =
     Inr (Finite (8796093 / 8796093022208)) \<and>
   \<not> close_to (\<bar>4722366482869645 / 4722366482869645213696\<bar> / 1000000000)
     (4722366482869645 / 4722366482869645213696)
     (round_trip (Finite (4722366482869645 / 4722366482869645213696)) CELSIUS KELVIN)"
proof -
  have a: "lit (1 / 1000000) = Finite (4722366482869645 / 4722366482869645213696)"
    by (simp add: lit_def round_micro)
  have b: "round_trip (Finite (4722366482869645 / 4722366482869645213696)) CELSIUS KELVIN =
      Inr (Finite (8796093 / 8796093022208))"
    by (simp add: round_trip_def convertUnit_formulas fsub_def lit_def round_27315
        round_micro_plus round_micro_back)
  have c: "\<not> close_to (\<bar>4722366482869645 / 4722366482869645213696\<bar> / 1000000000)
      (4722366482869645 / 4722366482869645213696) (Inr (Finite (8796093 / 8796093022208)))"
    by simp
  from a b c show ?thesis by (simp only: simp_thms)
qed

section \<open>The properties of the specification\<close>

text \<open>
  C1. For two distinct units of one family other than temperature, \<open>convertUnit\<close> returns
  the value times the quotient of the two table factors, the factor of \<open>from\<close> over the
  factor of \<open>to\<close>, computed in that order (first the quotient, then the product). This
  holds for every double \<open>value\<close>, finite or not.
\<close>

theorem convertUnit_ratio:
  assumes "from \<noteq> to"
    and "type (table_at from) = type (table_at to)"
    and "type (table_at from) \<noteq> TEMPERATURE"
  shows "convertUnit value from to =
    Inr (fmul value (fdiv (conversion_factor (table_at from)) (conversion_factor (table_at to))))"
  using assms by (simp add: convertUnit_other from_default_def)

theorem convertUnit_ratio_witness:
  "KILOMETERS \<noteq> METERS \<and> type (table_at KILOMETERS) = type (table_at METERS) \<and>
   type (table_at KILOMETERS) \<noteq> TEMPERATURE \<and>
   convertUnit (lit 1) KILOMETERS METERS =
     Inr (fmul (lit 1) (fdiv (conversion_factor (table_at KILOMETERS))
                             (conversion_factor (table_at METERS))))"
proof -
  have a: "KILOMETERS \<noteq> METERS" by simp
  have b: "type (table_at KILOMETERS) = type (table_at METERS)" by (simp add: type_table_at)
  have c: "type (table_at KILOMETERS) \<noteq> TEMPERATURE" by (simp add: type_table_at)
  from convertUnit_ratio [OF a b c, of "lit 1"] a b c show ?thesis by blast
qed

text \<open>
  C2. The specification expects \<open>1000.0\<close> for one kilometre in metres. \<open>convertUnit\<close> called with
  \<open>1\<close>, \<open>KILOMETERS\<close>, \<open>METERS\<close> returns the double nearest to \<open>0.001\<close> instead: the quotient
  is taken the wrong way round for factors that count units per base unit. \<open>main\<close>
  reaches \<open>1000.0\<close> for \<open>1 from kilometers to meters\<close> only because it swaps the two
  units first, and for the same reason it also answers \<open>1000.0\<close> to
  \<open>1 from meters to kilometers\<close>.
\<close>

theorem convertUnit_kilometers_to_meters:
  "convertUnit (lit 1) KILOMETERS METERS = Inr (lit (1 / 1000)) \<and>
   lit (1 / 1000) \<noteq> lit 1000 \<and>
   convert_block (lit 1) KILOMETERS METERS = Inr (lit 1000) \<and>
   main_result pow10 (- 1) (lit 1) ''meters'' ''kilometers'' = Inr (lit 1000)"
proof -
  have "convertUnit (lit 1) KILOMETERS METERS = Inr (lit (1 / 1000))"
    by (simp add: convertUnit_other type_table_at from_default_def factor_KILOMETERS
        factor_METERS lit_def round_1 round_milli round_milli_again)
  moreover have "lit (1 / 1000) \<noteq> lit 1000"
    by (simp add: lit_def round_milli round_1000)
  moreover have b: "convert_block (lit 1) x y = Inr (lit 1000)"
    if "x = KILOMETERS \<and> y = METERS \<or> x = METERS \<and> y = KILOMETERS" for x y
    using that
    by (auto simp: convert_block_def convertUnit_other type_table_at from_default_def
        factor_KILOMETERS factor_METERS lit_def round_1 round_milli round_inv_milli round_1000)
  moreover have "matchArgument ''meters'' = Inr METERS" "matchArgument ''kilometers'' = Inr KILOMETERS"
    by (simp_all add: matchArgument_find unit_table_def row_def tolower_def char_of_eq_code)
  ultimately show ?thesis by (simp add: main_result_def round_result_def)
qed

text \<open>
  C3. Whenever the families of the two units differ, \<open>convertUnit\<close> fails with
  \<open>IncompatibleFamilies\<close>; it fails with no other error and in no other case. In
  particular it fails when exactly one of the two units is a temperature unit: falling
  through the cases of the outer switch then ends in the family check of its default.
\<close>

theorem convertUnit_incompatible:
  "(type (table_at from) \<noteq> type (table_at to) \<longrightarrow>
      convertUnit value from to = Inl IncompatibleFamilies) \<and>
   ((type (table_at from) = TEMPERATURE) \<noteq> (type (table_at to) = TEMPERATURE) \<longrightarrow>
      convertUnit value from to = Inl IncompatibleFamilies) \<and>
   (convertUnit value from to = Inl e \<longrightarrow>
      e = IncompatibleFamilies \<and> type (table_at from) \<noteq> type (table_at to))"
  using convertUnit_error_iff [of "value" "from" to] by auto

theorem convertUnit_incompatible_witness:
  "type (table_at CELSIUS) \<noteq> type (table_at METERS) \<and>
   (type (table_at CELSIUS) = TEMPERATURE) \<noteq> (type (table_at METERS) = TEMPERATURE) \<and>
   convertUnit (lit 1) CELSIUS METERS = Inl IncompatibleFamilies \<and>
   convertUnit (lit 1) METERS KELVIN = Inl IncompatibleFamilies \<and>
   convertUnit (lit 1) METERS SECONDS = Inl IncompatibleFamilies"
proof -
  have a: "type (table_at CELSIUS) \<noteq> type (table_at METERS)" by (simp add: type_table_at)
  have b: "type (table_at METERS) \<noteq> type (table_at KELVIN)" by (simp add: type_table_at)
  have c: "type (table_at METERS) \<noteq> type (table_at SECONDS)" by (simp add: type_table_at)
  have d: "(type (table_at CELSIUS) = TEMPERATURE) \<noteq> (type (table_at METERS) = TEMPERATURE)"
    by (simp add: type_table_at)
  from convertUnit_incompatible [of CELSIUS METERS "lit 1" IncompatibleFamilies]
    convertUnit_incompatible [of METERS KELVIN "lit 1" IncompatibleFamilies]
    convertUnit_incompatible [of METERS SECONDS "lit 1" IncompatibleFamilies]
    a b c d
  show ?thesis by blast
qed

text \<open>
  C4. For each of the six ordered pairs of distinct temperature units \<open>convertUnit\<close>
  returns the formula of that pair, with the operations in the order of the source, for
  every double \<open>value\<close>. At the two fixtures the result is the expected double: \<open>32\<close> for
  \<open>0\<close> degrees Celsius in Fahrenheit, and the double written \<open>373.15\<close> for \<open>100\<close> degrees
  Celsius in Kelvin.
\<close>

theorem convertUnit_temperature:
  "convertUnit value CELSIUS FAHRENHEIT = Inr (fadd (fdiv (fmul value (lit 9)) (lit 5)) (lit 32)) \<and>
   convertUnit value CELSIUS KELVIN = Inr (fadd value (lit (27315 / 100))) \<and>
   convertUnit value FAHRENHEIT CELSIUS = Inr (fdiv (fmul (fsub value (lit 32)) (lit 5)) (lit 9)) \<and>
   convertUnit value FAHRENHEIT KELVIN =
     Inr (fadd (fdiv (fmul (fsub value (lit 32)) (lit 5)) (lit 9)) (lit (27315 / 100))) \<and>
   convertUnit value KELVIN CELSIUS = Inr (fsub value (lit (27315 / 100))) \<and>
   convertUnit value KELVIN FAHRENHEIT =
     Inr (fadd (fdiv (fmul (fsub value (lit (27315 / 100))) (lit 9)) (lit 5)) (lit 32)) \<and>
   convertUnit (lit 0) CELSIUS FAHRENHEIT = Inr (lit 32) \<and>
   convertUnit (lit 100) CELSIUS KELVIN = Inr (lit (37315 / 100))"
proof -
  have zero: "fadd (fdiv (fmul (lit 0) (lit 9)) (lit 5)) (lit 32) = lit 32"
    by (simp add: lit_def round_0 round_9 round_5 round_32)
  have hundred: "fadd (lit 100) (lit (27315 / 100)) = lit (37315 / 100)"
    by (simp add: lit_def round_100 round_27315 round_37315 round_100_plus)
  show ?thesis
    by (simp only: convertUnit_formulas zero hundred simp_thms)
qed

text \<open>
  C5. Converting a value from a unit to the same unit returns the value unchanged and
  never fails, for every unit, the temperature units among them.
\<close>

theorem convertUnit_identity: "convertUnit value u u = Inr value"
  by (simp add: convertUnit_def)

text \<open>
  C6. The specification asks for a round trip within a relative tolerance of \<open>10^-9\<close> for
  every finite value. No relative tolerance holds for temperatures: \<open>10^-20\<close> degrees
  Celsius in Kelvin is the double \<open>273.15\<close> itself, since the sum rounds the small value
  away, and \<open>273.15\<close> Kelvin in Celsius is \<open>0\<close>. The round trip of a value that is not
  zero returns zero.
\<close>

theorem round_trip_counterexample:
  "lit (1 / 10 ^ 20) = Finite (6646139978924579 / 664613997892457936451903530140172288) \<and>
   round_trip (Finite (6646139978924579 / 664613997892457936451903530140172288)) CELSIUS KELVIN = Inr (Finite 0) \<and>
   \<not> close_to (\<bar>6646139978924579 / 664613997892457936451903530140172288\<bar> / 1000000000)
     (6646139978924579 / 664613997892457936451903530140172288)
     (round_trip (Finite (6646139978924579 / 664613997892457936451903530140172288)) CELSIUS KELVIN)"
proof -
  have a: "lit (1 / 10 ^ 20) = Finite (6646139978924579 / 664613997892457936451903530140172288)"
    by (simp add: lit_def round_tiny)
  have b: "round_trip (Finite (6646139978924579 / 664613997892457936451903530140172288)) CELSIUS KELVIN = Inr (Finite 0)"
    by (simp add: round_trip_def convertUnit_formulas fsub_def lit_def round_27315
        round_tiny_plus round_0)
  have c: "\<not> close_to (\<bar>6646139978924579 / 664613997892457936451903530140172288\<bar> / 1000000000)
      (6646139978924579 / 664613997892457936451903530140172288) (Inr (Finite 0))"
    by simp
  from a b c show ?thesis by (simp only: simp_thms)
qed

text \<open>
  C6, amended. For two units of one family neither conversion of the round trip fails,
  whatever the double. For a ratio-based family and a value that is zero or of magnitude
  between \<open>10^-280\<close> and \<open>10^280\<close> (so that no product overflows or becomes subnormal),
  the round trip returns a finite double within the relative tolerance \<open>10^-9\<close> of the
  value. For two temperature units and a value of magnitude at most \<open>10^280\<close> it
  returns a finite double within \<open>max(10^-9 * |v|, 5 * 10^-12)\<close> of the value: the
  relative tolerance \<open>10^-9\<close> of the specification wherever \<open>|v|\<close> is at least \<open>0.005\<close>,
  and an absolute error of at most \<open>5 * 10^-12\<close> below that.
\<close>

theorem round_trip_within_tolerance:
  assumes "type (table_at a) = type (table_at b)"
  shows "(\<exists>r. round_trip x a b = Inr r) \<and>
    (type (table_at a) \<noteq> TEMPERATURE \<and> (v = 0 \<or> 1 / 10 ^ 280 \<le> \<bar>v\<bar> \<and> \<bar>v\<bar> \<le> 10 ^ 280) \<longrightarrow>
       close_to (\<bar>v\<bar> / 1000000000) v (round_trip (Finite v) a b)) \<and>
    (type (table_at a) = TEMPERATURE \<and> \<bar>v\<bar> \<le> 10 ^ 280 \<longrightarrow>
       close_to (max (\<bar>v\<bar> / 1000000000) (5 / 1000000000000)) v (round_trip (Finite v) a b))"
proof (intro conjI impI)
  from convertUnit_same_family [OF assms, of x] obtain w where w: "convertUnit x a b = Inr w" ..
  from convertUnit_same_family [OF assms [symmetric], of w] obtain r
    where "convertUnit w b a = Inr r" ..
  with w show "\<exists>r. round_trip x a b = Inr r" by (simp add: round_trip_def)
next
  assume h: "type (table_at a) \<noteq> TEMPERATURE \<and> (v = 0 \<or> 1 / 10 ^ 280 \<le> \<bar>v\<bar> \<and> \<bar>v\<bar> \<le> 10 ^ 280)"
  then have nt: "type (table_at a) \<noteq> TEMPERATURE"
    and v: "v = 0 \<or> 1 / 10 ^ 280 \<le> \<bar>v\<bar> \<and> \<bar>v\<bar> \<le> 10 ^ 280" by blast+
  from convertUnit_ratio_round_trip [OF assms nt v] obtain w r
    where "convertUnit (Finite v) a b = Inr (Finite w)" "convertUnit (Finite w) b a = Inr (Finite r)"
      and "\<bar>r - v\<bar> \<le> \<bar>v\<bar> / 1000000000" by blast
  then show "close_to (\<bar>v\<bar> / 1000000000) v (round_trip (Finite v) a b)"
    by (simp add: round_trip_def)
next
  assume h: "type (table_at a) = TEMPERATURE \<and> \<bar>v\<bar> \<le> 10 ^ 280"
  then have ta: "type (table_at a) = TEMPERATURE" and v: "\<bar>v\<bar> \<le> 10 ^ 280" by blast+
  from ta assms have tb: "type (table_at b) = TEMPERATURE" by simp
  from convertUnit_temperature_round_trip [OF ta tb v] obtain w r
    where "convertUnit (Finite v) a b = Inr (Finite w)" "convertUnit (Finite w) b a = Inr (Finite r)"
      and "\<bar>r - v\<bar> \<le> max (\<bar>v\<bar> / 1000000000) (5 / 1000000000000)" by blast
  then show "close_to (max (\<bar>v\<bar> / 1000000000) (5 / 1000000000000)) v (round_trip (Finite v) a b)"
    by (simp add: round_trip_def)
qed

theorem round_trip_within_tolerance_witness:
  "type (table_at METERS) = type (table_at KILOMETERS) \<and>
   type (table_at METERS) \<noteq> TEMPERATURE \<and>
   lit 5 = Finite 5 \<and> (1::rat) / 10 ^ 280 \<le> \<bar>5\<bar> \<and> \<bar>5::rat\<bar> \<le> 10 ^ 280 \<and>
   close_to (\<bar>5\<bar> / 1000000000) 5 (round_trip (Finite 5) METERS KILOMETERS) \<and>
   type (table_at CELSIUS) = type (table_at KELVIN) \<and>
   type (table_at CELSIUS) = TEMPERATURE \<and>
   lit (1 / 1000000) = Finite (4722366482869645 / 4722366482869645213696) \<and>
   \<bar>4722366482869645 / 4722366482869645213696 :: rat\<bar> \<le> 10 ^ 280 \<and>
   close_to (max (\<bar>4722366482869645 / 4722366482869645213696\<bar> / 1000000000) (5 / 1000000000000))
     (4722366482869645 / 4722366482869645213696)
     (round_trip (Finite (4722366482869645 / 4722366482869645213696)) CELSIUS KELVIN)"
proof -
  have m: "type (table_at METERS) = type (table_at KILOMETERS)"
    "type (table_at METERS) \<noteq> TEMPERATURE"
    by (simp_all add: type_table_at)
  have t: "type (table_at CELSIUS) = type (table_at KELVIN)"
    "type (table_at CELSIUS) = TEMPERATURE"
    by (simp_all add: type_table_at)
  have l: "lit 5 = Finite 5" "lit (1 / 1000000) = Finite (4722366482869645 / 4722366482869645213696)"
    by (simp_all add: lit_def round_5 round_micro)
  have v: "(1::rat) / 10 ^ 280 \<le> \<bar>5\<bar>" "\<bar>5::rat\<bar> \<le> 10 ^ 280"
    "\<bar>4722366482869645 / 4722366482869645213696 :: rat\<bar> \<le> 10 ^ 280"
    by simp_all
  from round_trip_within_tolerance [OF m(1), of "Finite 5" 5] m v
  have "close_to (\<bar>5\<bar> / 1000000000) 5 (round_trip (Finite 5) METERS KILOMETERS)" by blast
  moreover from round_trip_within_tolerance
    [OF t(1), of "Finite 5" "4722366482869645 / 4722366482869645213696"] t v
  have "close_to (max (\<bar>4722366482869645 / 4722366482869645213696\<bar> / 1000000000) (5 / 1000000000000))
     (4722366482869645 / 4722366482869645213696)
     (round_trip (Finite (4722366482869645 / 4722366482869645213696)) CELSIUS KELVIN)" by blast
  ultimately show ?thesis using m t l v by blast
qed

text \<open>
  C7. \<open>matchArgument\<close> returns the unit of the first row whose name equals the argument
  once both are put in lower case, and \<open>NotFound\<close> when there is no such row (the
  argument being a C string, it holds no NUL byte). The three spellings of \<open>kelvin\<close>
  give \<open>KELVIN\<close>, and \<open>parsecs\<close> is not found.
\<close>

theorem matchArgument_lookup:
  "(CHR 0x00 \<notin> set arg \<longrightarrow>
      matchArgument arg =
        (case find (\<lambda>r. map tolower arg = map tolower (name r)) unit_table of
           None \<Rightarrow> Inl NotFound
         | Some r \<Rightarrow> Inr (unit r))) \<and>
   matchArgument ''KELVIN'' = Inr KELVIN \<and>
   matchArgument ''kelvin'' = Inr KELVIN \<and>
   matchArgument ''Kelvin'' = Inr KELVIN \<and>
   matchArgument ''parsecs'' = Inl NotFound"
  using matchArgument_find [of arg] lookup_KELVIN lookup_parsecs by blast

theorem matchArgument_lookup_witness:
  "CHR 0x00 \<notin> set ''MeTeRs'' \<and> matchArgument ''MeTeRs'' = Inr METERS"
proof -
  have a: "CHR 0x00 \<notin> set ''MeTeRs''" by simp
  have "find (\<lambda>r. map tolower ''MeTeRs'' = map tolower (name r)) unit_table =
      Some (row LENGTH METERS ''meters'' (lit 1))"
    by (simp add: unit_table_def row_def tolower_def char_of_eq_code)
  with matchArgument_lookup [of "''MeTeRs''"] a show ?thesis by (simp add: row_def)
qed

text \<open>
  C8. Two different rows of the table never have names that \<open>strcasecmp\<close> takes for
  equal, whatever their families, so looking up the name of a row returns the unit of
  that very row.
\<close>

theorem unit_names_unique:
  "(\<forall>i < length unit_table. \<forall>j < length unit_table.
      i \<noteq> j \<longrightarrow> strcasecmp (name (unit_table ! i)) (name (unit_table ! j)) \<noteq> 0) \<and>
   (\<forall>i < length unit_table. matchArgument (name (unit_table ! i)) = Inr (unit (unit_table ! i)))"
  by (simp add: row_name_compare lookup_row_name)

theorem unit_names_unique_witness:
  "(2::nat) < length unit_table \<and> (30::nat) < length unit_table \<and> (2::nat) \<noteq> 30 \<and>
   type (unit_table ! 2) \<noteq> type (unit_table ! 30) \<and>
   strcasecmp (name (unit_table ! 2)) (name (unit_table ! 30)) \<noteq> 0 \<and>
   matchArgument (name (unit_table ! 30)) = Inr (unit (unit_table ! 30))"
proof -
  have a: "(2::nat) < length unit_table" "(30::nat) < length unit_table"
    by (simp_all add: unit_table_length)
  have b: "type (unit_table ! 2) \<noteq> type (unit_table ! 30)"
    by (simp add: unit_table_def row_def)
  from unit_names_unique a b show ?thesis by simp
qed

text \<open>
  C9. Row \<open>i\<close> of the table describes the unit whose enumerator is \<open>i\<close>. Every enumerator
  is an index of the table, so \<open>unit_table[u]\<close> is the row of the unit \<open>u\<close>.
\<close>

theorem unit_table_indexed_by_unit:
  "(\<forall>i < length unit_table. unit_index (unit (unit_table ! i)) = i) \<and>
   unit_index u < length unit_table \<and> unit (table_at u) = u"
proof -
  have "unit_index (unit (unit_table ! i)) = i" if "i < length unit_table" for i
  proof -
    from that have "map (unit_index \<circ> unit) unit_table ! i = [0..<length unit_table] ! i"
      by (simp only: unit_index_column)
    with that show ?thesis by simp
  qed
  then show ?thesis by (simp add: unit_index_less unit_table_at)
qed

theorem unit_table_indexed_by_unit_witness:
  "(8::nat) < length unit_table \<and> unit_index (unit (unit_table ! 8)) = 8 \<and>
   unit (unit_table ! 8) = KILOMETERS \<and> unit (table_at KILOMETERS) = KILOMETERS"
proof -
  have a: "(8::nat) < length unit_table" by (simp add: unit_table_length)
  have b: "unit (unit_table ! 8) = KILOMETERS" by (simp add: unit_table_def row_def)
  from unit_table_indexed_by_unit [of KILOMETERS] a b show ?thesis by blast
qed

text \<open>
  C10. \<open>main\<close> hands the two units to \<open>convertUnit\<close> with the smaller enumerator first, so
  the number it computes does not depend on which unit was named after \<open>from\<close> and which
  after \<open>to\<close>: both orders give the same result, before and after rounding, and the same
  failure.
\<close>

theorem convert_block_direction_independent:
  "convert_block value a b = convert_block value b a \<and>
   convert_block value a b =
     convertUnit value (if unit_index a \<le> unit_index b then a else b)
                       (if unit_index a \<le> unit_index b then b else a) \<and>
   main_result pow10 round_places value fromArg toArg =
     main_result pow10 round_places value toArg fromArg"
proof -
  have sym: "convert_block v x y = convert_block v y x" for v x y
  proof (cases "unit_index x = unit_index y")
    case True
    then have "x = y" by (rule unit_index_inj)
    then show ?thesis by simp
  next
    case False
    then show ?thesis by (simp add: convert_block_def)
  qed
  have ord: "convert_block value a b =
     convertUnit value (if unit_index a \<le> unit_index b then a else b)
                       (if unit_index a \<le> unit_index b then b else a)"
  proof (cases "unit_index a = unit_index b")
    case True
    then have "a = b" by (rule unit_index_inj)
    then show ?thesis by (simp add: convert_block_def)
  next
    case False
    then show ?thesis by (simp add: convert_block_def)
  qed
  have err: "matchArgument x = Inl e \<Longrightarrow> e = NotFound" for x e
    unfolding matchArgument_def by (rule matchArgument_loop_error)
  have "main_result pow10 round_places value fromArg toArg =
     main_result pow10 round_places value toArg fromArg"
  proof (cases "matchArgument fromArg")
    case f: (Inl e)
    then have "e = NotFound" by (rule err)
    with f show ?thesis
      by (cases "matchArgument toArg") (auto simp: main_result_def dest: err)
  next
    case f: (Inr x)
    show ?thesis
    proof (cases "matchArgument toArg")
      case (Inl e)
      then have "e = NotFound" by (rule err)
      with f Inl show ?thesis by (simp add: main_result_def)
    next
      case (Inr y)
      with f sym [of "value" x y] show ?thesis by (simp add: main_result_def)
    qed
  qed
  with sym [of "value" a b] ord show ?thesis by blast
qed

end
